theory Spec2Isabelle
  imports Complex_Main
begin

section \<open>pygame.Rect: the part of the library the game objects use\<close>

text \<open>
  A \<open>pygame.Rect\<close> holds integers \<open>x\<close>, \<open>y\<close>, \<open>w\<close>, \<open>h\<close>.  The game objects of
  \<open>objects.py\<close> only call \<open>move\<close>, \<open>contains\<close>, \<open>colliderect\<close> and the
  \<open>midtop\<close>, \<open>centerx\<close> and \<open>centery\<close> attributes.  Blitting, display updates and
  sounds write to the screen and the mixer, which no method reads back; they are left out.
\<close>

record rect =
  rx :: int
  ry :: int
  rw :: int
  rh :: int

definition Rect :: "int \<Rightarrow> int \<Rightarrow> int \<Rightarrow> int \<Rightarrow> rect" where
  "Rect x y w h = \<lparr>rx = x, ry = y, rw = w, rh = h\<rparr>"

text \<open>\<open>Rect.move(v)\<close> returns a new rectangle shifted by \<open>v\<close>.\<close>

definition move :: "rect \<Rightarrow> int \<times> int \<Rightarrow> rect" where
  "move r v = r\<lparr>rx := rx r + fst v, ry := ry r + snd v\<rparr>"

text \<open>\<open>a.contains(b)\<close>: \<open>b\<close> lies completely inside \<open>a\<close>.\<close>

definition contains :: "rect \<Rightarrow> rect \<Rightarrow> bool" where
  "contains a b \<longleftrightarrow>
     rx a \<le> rx b \<and> ry a \<le> ry b \<and>
     rx a + rw a \<ge> rx b + rw b \<and> ry a + rh a \<ge> ry b + rh b \<and>
     rx a + rw a > rx b \<and> ry a + rh a > ry b"

text \<open>
  \<open>a.colliderect(b)\<close>: the rectangles overlap; touching edges do not count and a
  rectangle of size zero collides with nothing.
\<close>

definition colliderect :: "rect \<Rightarrow> rect \<Rightarrow> bool" where
  "colliderect a b \<longleftrightarrow>
     \<not> (rw a = 0 \<or> rh a = 0 \<or> rw b = 0 \<or> rh b = 0) \<and>
     min (rx a) (rx a + rw a) < max (rx b) (rx b + rw b) \<and>
     min (ry a) (ry a + rh a) < max (ry b) (ry b + rh b) \<and>
     max (rx a) (rx a + rw a) > min (rx b) (rx b + rw b) \<and>
     max (ry a) (ry a + rh a) > min (ry b) (ry b + rh b)"

text \<open>The attribute \<open>midtop\<close>, read and assigned.\<close>

definition midtop :: "rect \<Rightarrow> int \<times> int" where
  "midtop r = (rx r + rw r div 2, ry r)"

definition set_midtop :: "rect \<Rightarrow> int \<times> int \<Rightarrow> rect" where
  "set_midtop r p = r\<lparr>rx := fst p - rw r div 2, ry := snd p\<rparr>"

text \<open>Assigning \<open>centerx\<close> and \<open>centery\<close> moves the rectangle in place.\<close>

definition set_centerx :: "rect \<Rightarrow> int \<Rightarrow> rect" where
  "set_centerx r cx = r\<lparr>rx := cx - rw r div 2\<rparr>"

definition set_centery :: "rect \<Rightarrow> int \<Rightarrow> rect" where
  "set_centery r cy = r\<lparr>ry := cy - rh r div 2\<rparr>"

section \<open>objects.Body\<close>

text \<open>
  A \<open>Body\<close> is a node of a linked list: \<open>new_body\<close> is the succeeding node and exists
  exactly when \<open>_has_tail\<close> is set (\<open>add_tail\<close> sets both together).  \<open>body_alive\<close> is
  \<open>alive()\<close>: membership of the body group.  \<open>_head.tail_rect\<close> is passed in by the
  caller, the preceding node.
\<close>

datatype body =
  Body (body_rect: rect) (body_tail_rect: rect) (body_alive: bool) (body_new_body: "body option")

text \<open>\<open>Body.__init__(head)\<close>: both rectangles are the head's \<open>tail_rect\<close>; no group, no tail.\<close>

definition Body_init :: "rect \<Rightarrow> body" where
  "Body_init head_tail_rect = Body head_tail_rect head_tail_rect False None"

text \<open>
  \<open>Body.update(body_group, game_display, background, count)\<close>.  The node joins the body
  group, remembers its rectangle in \<open>tail_rect\<close>, then either hands the update on to its
  successor with \<open>count - 1\<close> (when \<open>count > 0\<close> and a successor exists) or calls
  \<open>add_tail\<close> (when \<open>count \<le> 0\<close>), and last takes the head's \<open>tail_rect\<close>.
\<close>

fun Body_update :: "rect \<Rightarrow> int \<Rightarrow> body \<Rightarrow> body" where
  "Body_update head_tail_rect count (Body r t a nb) =
     Body head_tail_rect r True
       (if count > 0
        then (case nb of None \<Rightarrow> None | Some b \<Rightarrow> Some (Body_update r (count - 1) b))
        else (case nb of None \<Rightarrow> Some (Body_init r) | Some b \<Rightarrow> Some b))"

text \<open>The nodes linked from a node, in order, and those of them in the body group.\<close>

fun chain :: "body \<Rightarrow> body list" where
  "chain (Body r t a nb) = Body r t a nb # (case nb of None \<Rightarrow> [] | Some b \<Rightarrow> chain b)"

definition body_group :: "body \<Rightarrow> body list" where
  "body_group b = filter body_alive (chain b)"

text \<open>
  \<open>pygame.sprite.spritecollideany(sprite, sprites)\<close>: the first sprite of the group whose
  rectangle collides with the sprite's, or \<open>None\<close>.
\<close>

definition spritecollideany :: "rect \<Rightarrow> body list \<Rightarrow> body option" where
  "spritecollideany r sprites = find (\<lambda>b. colliderect r (body_rect b)) sprites"

section \<open>objects.Snake\<close>

text \<open>
  \<open>alive\<close> is \<open>alive()\<close>: membership of the snake's sprite group, which \<open>kill()\<close> ends.
  \<open>state\<close> keeps the source's strings.  \<open>movepos\<close> is the two-element list.
\<close>

record snake =
  rect :: rect
  movepos :: "int \<times> int"
  state :: string
  updated :: bool
  has_tail :: bool
  tail_rect :: rect
  add_tail :: int
  tail_count :: int
  new_body :: body
  alive :: bool

text \<open>
  \<open>Snake.__init__\<close>, for a display of rectangle \<open>area\<close>; \<open>load_image\<close> with
  \<open>resize = (49, 49)\<close> gives the rectangle \<open>(0, 0, 49, 49)\<close>.  A new sprite is in no
  group.
\<close>

definition Snake_init :: "rect \<Rightarrow> snake" where
  "Snake_init area =
     (let r0 = Rect 0 0 49 49;
          r = set_midtop r0 (midtop area)
      in \<lparr>rect = r, movepos = (0, 0 + rw r0), state = ''movedown'', updated = False,
          has_tail = False, tail_rect = r, add_tail = 0, tail_count = 0,
          new_body = Body_init r, alive = False\<rparr>)"

text \<open>
  \<open>MainGame.__init__\<close> puts the snake into \<open>_snake_appr\<close> and the snake's first body
  into \<open>_body_group\<close>.
\<close>

definition MainGame_snake :: "rect \<Rightarrow> snake" where
  "MainGame_snake area =
     (let s = Snake_init area;
          b = new_body s
      in s\<lparr>new_body := Body (body_rect b) (body_tail_rect b) True (body_new_body b),
           alive := True\<rparr>)"

text \<open>
  \<open>Snake.update(body_group, self_group, game_display, background)\<close>; \<open>game_display\<close>
  stands for \<open>game_display.get_rect()\<close> and the body group is read off the chain.
\<close>

definition Snake_update :: "rect \<Rightarrow> snake \<Rightarrow> snake" where
  "Snake_update game_display s =
     (if alive s then
        let s1 = (if has_tail s then
                    let sa = s\<lparr>tail_rect := rect s\<rparr>;
                        sb = (if tail_count sa > 0 then sa\<lparr>tail_count := add_tail sa\<rparr> else sa);
                        sc = sb\<lparr>new_body := Body_update (tail_rect sb) (tail_count sb) (new_body sb)\<rparr>
                    in sc\<lparr>tail_count := 0\<rparr>
                  else s);
            s2 = s1\<lparr>rect := move (rect s1) (movepos s1), updated := True\<rparr>;
            s3 = (if \<not> contains game_display (rect s2) then s2\<lparr>alive := False\<rparr> else s2);
            s4 = (if spritecollideany (rect s3) (body_group (new_body s3)) \<noteq> None
                  then s3\<lparr>alive := False\<rparr> else s3)
        in s4
      else s)"

definition moveup :: "snake \<Rightarrow> snake" where
  "moveup s =
     (if \<not> (state s = ''movedown'' \<or> state s = ''moveup'') then
        if updated s then
          if alive s then
            s\<lparr>movepos := (0, snd (movepos s) - rh (rect s)), state := ''moveup'', updated := False\<rparr>
          else s
        else s
      else s)"

definition moveleft :: "snake \<Rightarrow> snake" where
  "moveleft s =
     (if \<not> (state s = ''moveright'' \<or> state s = ''moveleft'') then
        if updated s then
          if alive s then
            s\<lparr>movepos := (fst (movepos s) - rw (rect s), 0), state := ''moveleft'', updated := False\<rparr>
          else s
        else s
      else s)"

definition movedown :: "snake \<Rightarrow> snake" where
  "movedown s =
     (if \<not> (state s = ''moveup'' \<or> state s = ''movedown'') then
        if updated s then
          if alive s then
            s\<lparr>movepos := (0, snd (movepos s) + rh (rect s)), state := ''movedown'', updated := False\<rparr>
          else s
        else s
      else s)"

definition moveright :: "snake \<Rightarrow> snake" where
  "moveright s =
     (if \<not> (state s = ''moveleft'' \<or> state s = ''moveright'') then
        if updated s then
          if alive s then
            s\<lparr>movepos := (fst (movepos s) + rw (rect s), 0), state := ''moveright'', updated := False\<rparr>
          else s
        else s
      else s)"

definition grow_body :: "snake \<Rightarrow> snake" where
  "grow_body s =
     (let s1 = (if has_tail s
                then (s\<lparr>add_tail := add_tail s + 1\<rparr>)\<lparr>tail_count := add_tail s + 1\<rparr>
                else s)
      in s1\<lparr>has_tail := True\<rparr>)"

text \<open>
  The key events of one pass of \<open>MainGame\<close>'s loop reach the snake as a sequence of
  calls of \<open>moveup\<close>, \<open>moveleft\<close>, \<open>movedown\<close> and \<open>moveright\<close>, all before the
  pass calls \<open>update\<close>.
\<close>

definition requests :: "(snake \<Rightarrow> snake) list \<Rightarrow> snake \<Rightarrow> snake" where
  "requests fs s = fold (\<lambda>f. f) fs s"

text \<open>The axis of a direction, and the reverse of a direction.\<close>

definition vertical :: "string \<Rightarrow> bool" where
  "vertical st \<longleftrightarrow> st = ''moveup'' \<or> st = ''movedown''"

definition horizontal :: "string \<Rightarrow> bool" where
  "horizontal st \<longleftrightarrow> st = ''moveleft'' \<or> st = ''moveright''"

definition opposite :: "string \<Rightarrow> string" where
  "opposite st =
     (if st = ''moveup'' then ''movedown''
      else if st = ''movedown'' then ''moveup''
      else if st = ''moveleft'' then ''moveright''
      else if st = ''moveright'' then ''moveleft''
      else st)"

text \<open>The display of \<open>MainGame\<close>, whose default \<open>size\<close> is \<open>(640, 640)\<close>.\<close>

definition screen :: rect where
  "screen = Rect 0 0 640 640"

section \<open>objects.ScoreText\<close>

text \<open>\<open>str\<close> of a Python integer, for \<open>"Score: {0}".format(self.score)\<close>.\<close>

definition digit_char :: "nat \<Rightarrow> char" where
  "digit_char d = ''0123456789'' ! d"

fun digits :: "nat \<Rightarrow> string" where
  "digits n = (if n < 10 then [digit_char n] else digits (n div 10) @ [digit_char (n mod 10)])"

definition str :: "int \<Rightarrow> string" where
  "str i = (if i < 0 then CHR ''-'' # digits (nat (- i)) else digits (nat i))"

text \<open>
  \<open>score_text\<close> is the string rendered into \<open>self.text\<close> and \<open>textpos\<close> its rectangle.
  \<open>display_updates\<close> counts the refreshes of the display that \<open>update\<close> performs (the two
  blits followed by \<open>pygame.display.update(self.textpos)\<close>).  The size of a rendered
  string belongs to the font: \<open>font_size\<close> stands for \<open>pygame.font.Font.size\<close>.
\<close>

record scoretext =
  score :: int
  old_score :: int
  score_text :: string
  textpos :: rect
  display_updates :: nat

text \<open>\<open>text.get_rect(bottomleft=area.get_rect().bottomleft)\<close>.\<close>

definition get_rect_bottomleft :: "int \<times> int \<Rightarrow> rect \<Rightarrow> rect" where
  "get_rect_bottomleft sz area = Rect (rx area) (ry area + rh area - snd sz) (fst sz) (snd sz)"

definition update_text :: "(string \<Rightarrow> int \<times> int) \<Rightarrow> rect \<Rightarrow> scoretext \<Rightarrow> scoretext" where
  "update_text font_size area st =
     (let t = ''Score: '' @ str (score st)
      in st\<lparr>score_text := t, textpos := get_rect_bottomleft (font_size t) area\<rparr>)"

definition ScoreText_init :: "(string \<Rightarrow> int \<times> int) \<Rightarrow> rect \<Rightarrow> scoretext" where
  "ScoreText_init font_size area =
     (let t = ''Score: '' @ str 0
      in \<lparr>score = 0, old_score = 0, score_text = t,
          textpos = get_rect_bottomleft (font_size t) area, display_updates = 1\<rparr>)"

text \<open>\<open>ScoreText.update(area, background, added)\<close>.\<close>

definition ScoreText_update ::
  "(string \<Rightarrow> int \<times> int) \<Rightarrow> rect \<Rightarrow> int \<Rightarrow> scoretext \<Rightarrow> scoretext" where
  "ScoreText_update font_size area added st =
     (let st1 = st\<lparr>score := score st + added\<rparr>
      in if score st1 \<noteq> old_score st1
         then let st2 = update_text font_size area st1;
                  st3 = st2\<lparr>display_updates := display_updates st2 + 1\<rparr>
              in st3\<lparr>old_score := score st3\<rparr>
         else st1)"

section \<open>objects.Apple\<close>

text \<open>
  The apple owns one \<open>Rect\<close> object for its whole life: \<open>_spawn\<close> moves it in place by
  assigning \<open>centerx\<close> and \<open>centery\<close>.  \<open>__init__\<close> sets \<open>_old_rect\<close> to the tuple
  \<open>(0, 0)\<close>, and \<open>update\<close> ends with \<open>self._old_rect = self.rect\<close>, which binds
  \<open>_old_rect\<close> to that same object, not to a copy.  So \<open>_old_rect\<close> is one of two things.
\<close>

datatype old_rect = Tuple00 | Own_rect

record apple =
  apple_rect :: rect
  pos :: "int \<times> int"
  old_rect :: old_rect
  spawn_timer :: real
  apple_alive :: bool
  apple_area :: rect

text \<open>
  \<open>self.rect == self._old_rect\<close>: a \<open>Rect\<close> is not equal to a pair of integers, and it
  is equal to itself.
\<close>

definition rect_eq_old :: "apple \<Rightarrow> bool" where
  "rect_eq_old a = (case old_rect a of Tuple00 \<Rightarrow> False | Own_rect \<Rightarrow> apple_rect a = apple_rect a)"

text \<open>
  The bounds of \<open>random.randint\<close> in \<open>__init__\<close> and \<open>_spawn\<close>; the draws themselves are
  an input of the model, a list of pairs \<open>(pos_x, pos_y)\<close> in the order they are drawn.
\<close>

definition in_spawn_range :: "apple \<Rightarrow> int \<times> int \<Rightarrow> bool" where
  "in_spawn_range a p \<longleftrightarrow>
     rx (apple_area a) + rw (apple_rect a) \<le> fst p \<and>
     fst p \<le> rx (apple_area a) + rw (apple_area a) - rw (apple_rect a) \<and>
     ry (apple_area a) + rh (apple_rect a) \<le> snd p \<and>
     snd p \<le> ry (apple_area a) + rh (apple_area a) - rh (apple_rect a)"

text \<open>
  \<open>Apple.__init__\<close> with its first draw, already in the group \<open>_food_appr\<close> in which
  \<open>MainGame\<close> puts it.
\<close>

definition MainGame_apple :: "rect \<Rightarrow> int \<times> int \<Rightarrow> apple" where
  "MainGame_apple area p =
     \<lparr>apple_rect = set_centery (set_centerx (Rect 0 0 50 50) (fst p)) (snd p), pos = p,
      old_rect = Tuple00, spawn_timer = 5, apple_alive = True, apple_area = area\<rparr>"

text \<open>
  \<open>Apple._spawn(snake, bodies)\<close>.  Each pass of \<open>while True\<close> takes one draw; the result
  is the apple and the draws left, and \<open>None\<close> when the draws run out before the loop
  breaks.
\<close>

fun spawn :: "snake \<Rightarrow> body list \<Rightarrow> (int \<times> int) list \<Rightarrow> apple \<Rightarrow> (apple \<times> (int \<times> int) list) option" where
  "spawn sn bodies [] a = None"
| "spawn sn bodies (p # draws) a =
     (let a1 = a\<lparr>pos := p\<rparr>;
          a2 = a1\<lparr>apple_rect := set_centery (set_centerx (apple_rect a1) (fst (pos a1))) (snd (pos a1))\<rparr>
      in if \<not> (colliderect (rect sn) (apple_rect a2)
               \<and> spritecollideany (apple_rect a2) bodies \<noteq> None
               \<and> rect_eq_old a2)
         then Some (a2, draws)
         else spawn sn bodies draws a2)"




section \<open>One pass of the loop of MainGame, as far as the snake goes\<close>

text \<open>
  A pass of the \<open>while\<close> loop of \<open>MainGame.__init__\<close> first calls \<open>Apple.update\<close>, which
  calls \<open>grow_body\<close> once when the apple is eaten and the snake is alive, then hands the
  key events to the snake, then calls \<open>Snake.update\<close>.  \<open>eats\<close> says that the apple is
  alive and collides with the snake in this pass.
\<close>

definition game_tick :: "rect \<Rightarrow> bool \<Rightarrow> (snake \<Rightarrow> snake) list \<Rightarrow> snake \<Rightarrow> snake" where
  "game_tick gd eats keys s =
     Snake_update gd (requests keys (if eats \<and> alive s then grow_body s else s))"

fun session :: "rect \<Rightarrow> (bool \<times> (snake \<Rightarrow> snake) list) list \<Rightarrow> snake \<Rightarrow> snake" where
  "session gd [] s = s"
| "session gd ((eats, keys) # ts) s = session gd ts (game_tick gd eats keys s)"

text \<open>The number of apples eaten in a session: the number of calls of \<open>grow_body\<close>.\<close>

fun eaten :: "rect \<Rightarrow> (bool \<times> (snake \<Rightarrow> snake) list) list \<Rightarrow> snake \<Rightarrow> nat" where
  "eaten gd [] s = 0"
| "eaten gd ((eats, keys) # ts) s =
     (if eats \<and> alive s then 1 else 0) + eaten gd ts (game_tick gd eats keys s)"

text \<open>
  The first passes of a session in which the player turns right, up and left, one turn a
  pass, and eats nothing.
\<close>

definition pass1 :: snake where
  "pass1 = game_tick screen False [] (MainGame_snake screen)"

definition pass2 :: snake where
  "pass2 = game_tick screen False [moveright] pass1"

definition pass3 :: snake where
  "pass3 = game_tick screen False [moveup] pass2"

text \<open>A font whose glyphs are 8 by 16 pixels, for the concrete session.\<close>

definition font8 :: "string \<Rightarrow> int \<times> int" where
  "font8 t = (8 * int (length t), 16)"

text \<open>
  An apple of the concrete session that was eaten at the centre \<open>(320, 73)\<close> and whose
  timer has run down: the next \<open>update\<close> respawns it.
\<close>

definition eaten_apple :: apple where
  "eaten_apple =
     (MainGame_apple screen (320, 73))\<lparr>apple_alive := False, old_rect := Own_rect, spawn_timer := 0\<rparr>"

text \<open>
  What holds between two passes once \<open>n\<close> apples are eaten: no count is pending, and the
  flags \<open>alive()\<close> along the chain are as follows.
\<close>

definition chain_inv :: "nat \<Rightarrow> snake \<Rightarrow> bool" where
  "chain_inv n s \<longleftrightarrow>
     tail_count s = 0 \<and>
     (if n = 0
      then \<not> has_tail s \<and> add_tail s = 0 \<and> map body_alive (chain (new_body s)) = [True]
      else has_tail s \<and> add_tail s = int n - 1 \<and>
           map body_alive (chain (new_body s)) = replicate n True @ [False])"

section \<open>The json module, for the documents this program writes\<close>

text \<open>
  \<open>_json_update\<close> writes and reads its two files with \<open>json.dumps\<close> and \<open>json.load\<close>.
  The values modelled are those that make up the two files: dictionaries with string
  keys, in insertion order, strings and integers.  A string is a list of 8-bit
  characters, standing for the code points below 256.
\<close>

datatype json = JInt int | JStr string | JObj "(string \<times> json) list"

text \<open>\<open>d[k] = v\<close> on a dictionary: the value of an existing key is replaced in place, a new
  key goes to the end.\<close>

fun dict_set :: "(string \<times> 'v) list \<Rightarrow> string \<Rightarrow> 'v \<Rightarrow> (string \<times> 'v) list" where
  "dict_set [] k v = [(k, v)]"
| "dict_set ((k', v') # kvs) k v = (if k' = k then (k, v) # kvs else (k', v') # dict_set kvs k v)"

text \<open>
  \<open>json.dumps(obj, indent=n)\<close>.  A string is written between double quotes with
  \<open>ensure_ascii\<close> escaping: short escapes for the double quote, the backslash and five
  control characters, \<open>\u00XX\<close> for every other character outside the range from the
  space to the tilde.  A dictionary that is not empty puts each item on a line of its own,
  indented by \<open>n\<close> spaces a level, with \<open>", "\<close> replaced by a comma at the end of the
  line and \<open>": "\<close> after the key.
\<close>

definition hex_char :: "nat \<Rightarrow> char" where
  "hex_char d = ''0123456789abcdef'' ! d"

definition escape_char :: "char \<Rightarrow> string" where
  "escape_char c =
     (if c = CHR 0x22 then [CHR 0x5C, CHR 0x22]
      else if c = CHR 0x5C then [CHR 0x5C, CHR 0x5C]
      else if c = CHR 0x0A then [CHR 0x5C, CHR ''n'']
      else if c = CHR 0x0D then [CHR 0x5C, CHR ''r'']
      else if c = CHR 0x09 then [CHR 0x5C, CHR ''t'']
      else if c = CHR 0x08 then [CHR 0x5C, CHR ''b'']
      else if c = CHR 0x0C then [CHR 0x5C, CHR ''f'']
      else if 0x20 \<le> (of_char c :: nat) \<and> (of_char c :: nat) \<le> 0x7E then [c]
      else [CHR 0x5C, CHR ''u'', CHR ''0'', CHR ''0'',
            hex_char ((of_char c :: nat) div 16), hex_char ((of_char c :: nat) mod 16)])"

definition encode_str :: "string \<Rightarrow> string" where
  "encode_str s = CHR 0x22 # concat (map escape_char s) @ [CHR 0x22]"

definition newline_indent :: "nat \<Rightarrow> nat \<Rightarrow> string" where
  "newline_indent indent level = CHR 0x0A # replicate (indent * level) CHR '' ''"

fun iterencode :: "nat \<Rightarrow> nat \<Rightarrow> json \<Rightarrow> string"
  and iterencode_items :: "nat \<Rightarrow> nat \<Rightarrow> (string \<times> json) list \<Rightarrow> string" where
  "iterencode indent level (JInt i) = str i"
| "iterencode indent level (JStr s) = encode_str s"
| "iterencode indent level (JObj []) = ''{}''"
| "iterencode indent level (JObj (kv # kvs)) =
     ''{'' @ newline_indent indent (level + 1) @ iterencode_items indent (level + 1) (kv # kvs)
       @ newline_indent indent level @ ''}''"
| "iterencode_items indent level [] = []"
| "iterencode_items indent level ((k, v) # kvs) =
     encode_str k @ '': '' @ iterencode indent level v
       @ (if kvs = [] then [] else '','' @ newline_indent indent level @ iterencode_items indent level kvs)"

definition dumps :: "json \<Rightarrow> nat \<Rightarrow> string" where
  "dumps obj indent = iterencode indent 0 obj"

text \<open>
  \<open>json.load\<close>, as \<open>loads\<close> of the text of the file: \<open>None\<close> stands for
  \<open>JSONDecodeError\<close>.  The scanner reads strings (\<open>scanstring\<close>, strict: a raw control
  character is an error), integers (without a leading zero; a number with a fraction or
  an exponent is a float and not modelled) and objects, in which a repeated key keeps its
  first place and takes its last value.  Arrays, floats and the literals \<open>true\<close>,
  \<open>false\<close> and \<open>null\<close> are outside the values modelled and read as \<open>None\<close> too.  The
  scanner takes the length of the text as its fuel, which is more than it ever uses:
  every call consumes a character.
\<close>

definition is_ws :: "char \<Rightarrow> bool" where
  "is_ws c \<longleftrightarrow> c = CHR '' '' \<or> c = CHR 0x09 \<or> c = CHR 0x0A \<or> c = CHR 0x0D"

definition skip_ws :: "string \<Rightarrow> string" where
  "skip_ws s = dropWhile is_ws s"

definition digit_val :: "char \<Rightarrow> nat option" where
  "digit_val c =
     (if (48::nat) \<le> of_char c \<and> (of_char c :: nat) \<le> 57 then Some (of_char c - 48) else None)"

definition hex_val :: "char \<Rightarrow> nat option" where
  "hex_val c =
     (if (48::nat) \<le> of_char c \<and> (of_char c :: nat) \<le> 57 then Some (of_char c - 48)
      else if (97::nat) \<le> of_char c \<and> (of_char c :: nat) \<le> 102 then Some (of_char c - 87)
      else if (65::nat) \<le> of_char c \<and> (of_char c :: nat) \<le> 70 then Some (of_char c - 55)
      else None)"

definition unescape :: "char \<Rightarrow> char option" where
  "unescape e =
     (if e = CHR 0x22 then Some (CHR 0x22)
      else if e = CHR 0x5C then Some (CHR 0x5C)
      else if e = CHR ''/'' then Some (CHR ''/'')
      else if e = CHR ''b'' then Some (CHR 0x08)
      else if e = CHR ''f'' then Some (CHR 0x0C)
      else if e = CHR ''n'' then Some (CHR 0x0A)
      else if e = CHR ''r'' then Some (CHR 0x0D)
      else if e = CHR ''t'' then Some (CHR 0x09)
      else None)"

definition cons_result :: "char \<Rightarrow> (string \<times> string) option \<Rightarrow> (string \<times> string) option" where
  "cons_result c r = (case r of None \<Rightarrow> None | Some (s, rest) \<Rightarrow> Some (c # s, rest))"

fun scanstring :: "string \<Rightarrow> (string \<times> string) option" where
  "scanstring [] = None"
| "scanstring (c # cs) =
     (if c = CHR 0x22 then Some ([], cs)
      else if c = CHR 0x5C then
        (case cs of
           [] \<Rightarrow> None
         | e # cs1 \<Rightarrow>
             if e = CHR ''u'' then
               (case cs1 of
                  h1 # h2 # h3 # h4 # cs2 \<Rightarrow>
                    (case (hex_val h1, hex_val h2, hex_val h3, hex_val h4) of
                       (Some a, Some b, Some c, Some d) \<Rightarrow>
                         if a = 0 \<and> b = 0
                         then cons_result (char_of (16 * c + d)) (scanstring cs2)
                         else None
                     | _ \<Rightarrow> None)
                | _ \<Rightarrow> None)
             else
               (case unescape e of
                  None \<Rightarrow> None
                | Some ch \<Rightarrow> cons_result ch (scanstring cs1)))
      else if (of_char c :: nat) < 0x20 then None
      else cons_result c (scanstring cs))"

fun scan_digits :: "nat \<Rightarrow> string \<Rightarrow> nat \<times> string" where
  "scan_digits acc [] = (acc, [])"
| "scan_digits acc (c # cs) =
     (case digit_val c of None \<Rightarrow> (acc, c # cs) | Some d \<Rightarrow> scan_digits (10 * acc + d) cs)"

definition scan_nat :: "string \<Rightarrow> (nat \<times> string) option" where
  "scan_nat s =
     (case s of
        [] \<Rightarrow> None
      | c # cs \<Rightarrow>
          (case digit_val c of
             None \<Rightarrow> None
           | Some d \<Rightarrow> if d = 0 then Some (0, cs) else Some (scan_digits d cs)))"

definition is_float_tail :: "string \<Rightarrow> bool" where
  "is_float_tail s = (case s of [] \<Rightarrow> False | c # cs \<Rightarrow> c = CHR ''.'' \<or> c = CHR ''e'' \<or> c = CHR ''E'')"

definition scan_int :: "string \<Rightarrow> (json \<times> string) option" where
  "scan_int s =
     (case s of
        [] \<Rightarrow> None
      | c # cs \<Rightarrow>
          (if c = CHR ''-''
           then (case scan_nat cs of
                   None \<Rightarrow> None
                 | Some (n, rest) \<Rightarrow> if is_float_tail rest then None else Some (JInt (- int n), rest))
           else (case scan_nat s of
                   None \<Rightarrow> None
                 | Some (n, rest) \<Rightarrow> if is_float_tail rest then None else Some (JInt (int n), rest))))"

fun scan_value :: "nat \<Rightarrow> string \<Rightarrow> (json \<times> string) option"
  and scan_members :: "nat \<Rightarrow> (string \<times> json) list \<Rightarrow> string \<Rightarrow> (json \<times> string) option" where
  "scan_value 0 s = None"
| "scan_value (Suc fuel) s =
     (case s of
        [] \<Rightarrow> None
      | c # cs \<Rightarrow>
          if c = CHR 0x22 then
            (case scanstring cs of None \<Rightarrow> None | Some (t, rest) \<Rightarrow> Some (JStr t, rest))
          else if c = CHR ''{'' then
            (case skip_ws cs of
               [] \<Rightarrow> None
             | d # ds \<Rightarrow> if d = CHR ''}'' then Some (JObj [], ds) else scan_members fuel [] (d # ds))
          else scan_int s)"
| "scan_members 0 acc s = None"
| "scan_members (Suc fuel) acc s =
     (case s of
        [] \<Rightarrow> None
      | c # cs \<Rightarrow>
          if c = CHR 0x22 then
            (case scanstring cs of
               None \<Rightarrow> None
             | Some (key, r1) \<Rightarrow>
                 (case skip_ws r1 of
                    [] \<Rightarrow> None
                  | d # r2 \<Rightarrow>
                      if d = CHR '':'' then
                        (case scan_value fuel (skip_ws r2) of
                           None \<Rightarrow> None
                         | Some (v, r3) \<Rightarrow>
                             (case skip_ws r3 of
                                [] \<Rightarrow> None
                              | e # r4 \<Rightarrow>
                                  if e = CHR '','' then scan_members fuel (dict_set acc key v) (skip_ws r4)
                                  else if e = CHR ''}'' then Some (JObj (dict_set acc key v), r4)
                                  else None))
                      else None))
          else None)"

definition loads :: "string \<Rightarrow> json option" where
  "loads s =
     (case scan_value (length s) (skip_ws s) of
        None \<Rightarrow> None
      | Some (v, rest) \<Rightarrow> if skip_ws rest = [] then Some v else None)"

section \<open>game\_init.\_json\_update\<close>

text \<open>
  The files are a map from names to texts.  \<open>dict_obj\<close> is the dictionary that
  \<open>MainGame\<close> builds: a date string, \<open>int(self._time_played)\<close> and the score.
\<close>

type_synonym files = "string \<Rightarrow> string option"

record session_info =
  Date :: string
  Time_Played :: int
  Score :: int

definition dict_obj :: "session_info \<Rightarrow> json" where
  "dict_obj r =
     JObj [(''Date'', JStr (Date r)),
           (''Time Played (in seconds)'', JInt (Time_Played r)),
           (''Score'', JInt (Score r))]"

datatype error = FileNotFoundError | JSONDecodeError | KeyError | TypeError

text \<open>
  The loop \<open>for place in input_dictionary\<close> over the keys \<open>places\<close> that are left.
  \<open>input_dictionary[place]["Score"]\<close> raises \<open>TypeError\<close> when the entry is not a
  dictionary and \<open>KeyError\<close> when it has no score; \<open>player_val > board_val\<close> raises
  \<open>TypeError\<close> when the score on the board is not a number.  The result is the updated
  dictionary, or \<open>None\<close> when \<open>board_update\<close> stays \<open>False\<close>.
\<close>

fun scan_places ::
  "session_info \<Rightarrow> string list \<Rightarrow> (string \<times> json) list \<Rightarrow> error + (string \<times> json) list option" where
  "scan_places r [] input_dictionary = Inr None"
| "scan_places r (place # places) input_dictionary =
     (case map_of input_dictionary place of
        None \<Rightarrow> Inl KeyError
      | Some entry \<Rightarrow>
          (case entry of
             JObj items \<Rightarrow>
               (case map_of items ''Score'' of
                  None \<Rightarrow> Inl KeyError
                | Some board_val \<Rightarrow>
                    (case board_val of
                       JInt n \<Rightarrow>
                         if Score r > n
                         then Inr (Some (dict_set input_dictionary place
                                (JObj (dict_set
                                  (dict_set
                                    (dict_set items ''Date'' (JStr (Date r)))
                                    ''Time Played (in seconds)'' (JInt (Time_Played r)))
                                  ''Score'' (JInt (Score r))))))
                         else scan_places r places input_dictionary
                     | _ \<Rightarrow> Inl TypeError))
           | _ \<Rightarrow> Inl TypeError))"

text \<open>
  The loop on what \<open>json.load\<close> returned: a dictionary is iterated by its keys, an
  integer is not iterable, and a string is iterated by its characters, which are no
  indices of a string.
\<close>

definition update_board :: "session_info \<Rightarrow> json \<Rightarrow> error + json option" where
  "update_board r input_dictionary =
     (case input_dictionary of
        JObj kvs \<Rightarrow>
          (case scan_places r (map fst kvs) kvs of
             Inl e \<Rightarrow> Inl e
           | Inr None \<Rightarrow> Inr None
           | Inr (Some kvs') \<Rightarrow> Inr (Some (JObj kvs')))
      | JInt n \<Rightarrow> Inl TypeError
      | JStr s \<Rightarrow> if s = [] then Inr None else Inl TypeError)"

text \<open>
  \<open>_json_update(dict_obj)\<close>: the exception raised, if any, and the files as the call
  leaves them.
\<close>

definition json_update :: "files \<Rightarrow> session_info \<Rightarrow> (error + unit) \<times> files" where
  "json_update fs r =
     (let fs1 = fs(''last_session_info.json'' \<mapsto> dumps (dict_obj r) 3)
      in case fs1 ''leaderboard.json'' of
           None \<Rightarrow> (Inl FileNotFoundError, fs1)
         | Some txt \<Rightarrow>
             (case loads txt of
                None \<Rightarrow> (Inl JSONDecodeError, fs1)
              | Some input_dictionary \<Rightarrow>
                  (case update_board r input_dictionary of
                     Inl e \<Rightarrow> (Inl e, fs1)
                   | Inr None \<Rightarrow> (Inr (), fs1)
                   | Inr (Some d) \<Rightarrow> (Inr (), fs1(''leaderboard.json'' \<mapsto> dumps d 10)))))"

text \<open>
  For the statements about the leaderboard: the score of an entry, the index of the first
  entry whose score the new score exceeds, and an entry overwritten with the record.
\<close>

definition entry_score :: "json \<Rightarrow> int option" where
  "entry_score e =
     (case e of
        JObj items \<Rightarrow> (case map_of items ''Score'' of Some (JInt n) \<Rightarrow> Some n | _ \<Rightarrow> None)
      | _ \<Rightarrow> None)"

fun first_exceeded :: "int \<Rightarrow> (string \<times> json) list \<Rightarrow> nat option" where
  "first_exceeded s [] = None"
| "first_exceeded s ((k, e) # kvs) =
     (case entry_score e of
        Some n \<Rightarrow> if s > n then Some 0
                  else (case first_exceeded s kvs of None \<Rightarrow> None | Some i \<Rightarrow> Some (Suc i))
      | None \<Rightarrow> None)"

definition overwritten :: "session_info \<Rightarrow> json \<Rightarrow> json" where
  "overwritten r e =
     (case e of
        JObj items \<Rightarrow>
          JObj (dict_set (dict_set (dict_set items ''Date'' (JStr (Date r)))
                  ''Time Played (in seconds)'' (JInt (Time_Played r)))
                  ''Score'' (JInt (Score r)))
      | _ \<Rightarrow> e)"

text \<open>
  A leaderboard of ten entries, kept in a file written without indentation, and two
  session records, for the concrete session.
\<close>

definition place_entry :: "int \<Rightarrow> json" where
  "place_entry n =
     JObj [(''Date'', JStr ''2021/05/17''), (''Time Played (in seconds)'', JInt 30), (''Score'', JInt n)]"

definition leaderboard0 :: "(string \<times> json) list" where
  "leaderboard0 =
     [(''First Place'', place_entry 100), (''Second Place'', place_entry 90),
      (''Third Place'', place_entry 80), (''Fourth Place'', place_entry 70),
      (''Fifth Place'', place_entry 60), (''Sixth Place'', place_entry 50),
      (''Seventh Place'', place_entry 40), (''Eighth Place'', place_entry 30),
      (''Ninth Place'', place_entry 20), (''Tenth Place'', place_entry 10)]"

definition files0 :: files where
  "files0 = Map.empty(''leaderboard.json'' \<mapsto> dumps (JObj leaderboard0) 0)"

definition session50 :: session_info where
  "session50 = \<lparr>Date = ''2026/11/04'', Time_Played = 12, Score = 50\<rparr>"

definition session5 :: session_info where
  "session5 = \<lparr>Date = ''2026/11/04'', Time_Played = 3, Score = 5\<rparr>"

text \<open>For the statements about the scanner: a text that does not go on with a digit.\<close>

definition no_digit :: "string \<Rightarrow> bool" where
  "no_digit s = (case s of [] \<Rightarrow> True | c # cs \<Rightarrow> digit_val c = None)"

section \<open>Facts about rectangles\<close>

lemma Rect_sel [simp]:
  "rx (Rect x y w h) = x" "ry (Rect x y w h) = y" "rw (Rect x y w h) = w" "rh (Rect x y w h) = h"
  by (simp_all add: Rect_def)

lemma Rect_eq [simp]:
  "Rect x y w h = Rect x' y' w' h' \<longleftrightarrow> x = x' \<and> y = y' \<and> w = w' \<and> h = h'"
  by (simp add: Rect_def)

lemma move_Rect [simp]: "move (Rect x y w h) v = Rect (x + fst v) (y + snd v) w h"
  by (simp add: Rect_def move_def)

lemma set_midtop_Rect [simp]: "set_midtop (Rect x y w h) p = Rect (fst p - w div 2) (snd p) w h"
  by (simp add: Rect_def set_midtop_def)

lemma set_center_Rect [simp]:
  "set_centerx (Rect x y w h) cx = Rect (cx - w div 2) y w h"
  "set_centery (Rect x y w h) cy = Rect x (cy - h div 2) w h"
  by (simp_all add: Rect_def set_centerx_def set_centery_def)

lemma screen_sel [simp]: "rx screen = 0" "ry screen = 0" "rw screen = 640" "rh screen = 640"
  by (simp_all add: screen_def)

lemma contains_collides:
  assumes "contains a b" "0 < rw b" "0 < rh b"
  shows "colliderect a b"
  using assms by (auto simp: contains_def colliderect_def)

lemma same_place_collides:
  assumes "rx a = rx b" "ry a = ry b" "0 < rw a" "0 < rh a" "0 < rw b" "0 < rh b"
  shows "colliderect a b"
  using assms by (auto simp: colliderect_def)

lemma spritecollideany_None:
  "spritecollideany r sprites = None \<longleftrightarrow> (\<forall>b \<in> set sprites. \<not> colliderect r (body_rect b))"
  by (auto simp: spritecollideany_def find_None_iff)

section \<open>A concrete session\<close>

lemma MainGame_snake_value:
  "MainGame_snake screen =
     \<lparr>rect = Rect 296 0 49 49, movepos = (0, 49), state = ''movedown'', updated = False,
      has_tail = False, tail_rect = Rect 296 0 49 49, add_tail = 0, tail_count = 0,
      new_body = Body (Rect 296 0 49 49) (Rect 296 0 49 49) True None, alive = True\<rparr>"
  by (simp add: MainGame_snake_def Snake_init_def midtop_def Body_init_def Let_def)

lemma body_group_single: "body_group (Body r t True None) = [Body r t True None]"
  by (simp add: body_group_def)

lemma pass1_value:
  "pass1 =
     \<lparr>rect = Rect 296 49 49 49, movepos = (0, 49), state = ''movedown'', updated = True,
      has_tail = False, tail_rect = Rect 296 0 49 49, add_tail = 0, tail_count = 0,
      new_body = Body (Rect 296 0 49 49) (Rect 296 0 49 49) True None, alive = True\<rparr>"
  by (simp add: pass1_def game_tick_def requests_def MainGame_snake_value Snake_update_def
      body_group_single spritecollideany_def contains_def colliderect_def Let_def)

lemma pass2_value:
  "pass2 =
     \<lparr>rect = Rect 345 49 49 49, movepos = (49, 0), state = ''moveright'', updated = True,
      has_tail = False, tail_rect = Rect 296 0 49 49, add_tail = 0, tail_count = 0,
      new_body = Body (Rect 296 0 49 49) (Rect 296 0 49 49) True None, alive = True\<rparr>"
  by (simp add: pass2_def game_tick_def requests_def pass1_value moveright_def Snake_update_def
      body_group_single spritecollideany_def contains_def colliderect_def Let_def)

lemma pass3_value:
  "pass3 =
     \<lparr>rect = Rect 345 0 49 49, movepos = (0, - 49), state = ''moveup'', updated = True,
      has_tail = False, tail_rect = Rect 296 0 49 49, add_tail = 0, tail_count = 0,
      new_body = Body (Rect 296 0 49 49) (Rect 296 0 49 49) True None, alive = True\<rparr>"
  by (simp add: pass3_def game_tick_def requests_def pass2_value moveup_def Snake_update_def
      body_group_single spritecollideany_def contains_def colliderect_def Let_def)

lemma pass3_up_value:
  "Snake_update screen pass3 =
     \<lparr>rect = Rect 345 (- 49) 49 49, movepos = (0, - 49), state = ''moveup'', updated = True,
      has_tail = False, tail_rect = Rect 296 0 49 49, add_tail = 0, tail_count = 0,
      new_body = Body (Rect 296 0 49 49) (Rect 296 0 49 49) True None, alive = False\<rparr>"
  by (simp add: pass3_value Snake_update_def
      body_group_single spritecollideany_def contains_def colliderect_def Let_def)

lemma pass3_left_value:
  "Snake_update screen (moveleft pass3) =
     \<lparr>rect = Rect 296 0 49 49, movepos = (- 49, 0), state = ''moveleft'', updated = True,
      has_tail = False, tail_rect = Rect 296 0 49 49, add_tail = 0, tail_count = 0,
      new_body = Body (Rect 296 0 49 49) (Rect 296 0 49 49) True None, alive = False\<rparr>"
  by (simp add: pass3_value moveleft_def Snake_update_def
      body_group_single spritecollideany_def contains_def colliderect_def Let_def)

section \<open>Direction changes\<close>

lemma request_cases:
  assumes "f \<in> {moveup, movedown, moveleft, moveright}"
  obtains "f = moveup" | "f = movedown" | "f = moveleft" | "f = moveright"
  using assms by auto

lemma request_rejected:
  assumes "f \<in> {moveup, movedown, moveleft, moveright}" "\<not> updated s"
  shows "f s = s"
  using assms by (auto simp: moveup_def movedown_def moveleft_def moveright_def)

lemma request_accepted:
  assumes "f \<in> {moveup, movedown, moveleft, moveright}" "f s \<noteq> s"
  shows "alive s \<and> updated s \<and> \<not> updated (f s) \<and> alive (f s) \<and> rect (f s) = rect s \<and>
     (vertical (state (f s)) \<and> \<not> vertical (state s) \<or>
      horizontal (state (f s)) \<and> \<not> horizontal (state s))"
  using assms(1)
proof (cases rule: request_cases)
  case 1 with assms(2) show ?thesis by (simp add: moveup_def vertical_def split: if_splits)
next
  case 2 with assms(2) show ?thesis by (simp add: movedown_def vertical_def split: if_splits)
next
  case 3 with assms(2) show ?thesis by (simp add: moveleft_def horizontal_def split: if_splits)
next
  case 4 with assms(2) show ?thesis by (simp add: moveright_def horizontal_def split: if_splits)
qed

lemma requests_rejected:
  "set fs \<subseteq> {moveup, movedown, moveleft, moveright} \<Longrightarrow> \<not> updated s \<Longrightarrow> requests fs s = s"
proof (induction fs)
  case Nil
  then show ?case by (simp add: requests_def)
next
  case (Cons f fs)
  then have "f s = s" using request_rejected[of f s] by simp
  with Cons show ?case by (simp add: requests_def)
qed

lemma requests_first:
  "set fs \<subseteq> {moveup, movedown, moveleft, moveright} \<Longrightarrow>
   requests fs s = s \<or> (\<exists>f \<in> set fs. f s \<noteq> s \<and> requests fs s = f s)"
proof (induction fs)
  case Nil
  then show ?case by (simp add: requests_def)
next
  case (Cons f fs)
  show ?case
  proof (cases "f s = s")
    case True
    with Cons show ?thesis by (auto simp: requests_def)
  next
    case False
    from Cons.prems have f: "f \<in> {moveup, movedown, moveleft, moveright}" by simp
    from request_accepted[OF f False] have "\<not> updated (f s)" by simp
    with Cons.prems have "requests fs (f s) = f s" by (simp add: requests_rejected)
    with False show ?thesis by (simp add: requests_def)
  qed
qed

lemma opposite_axis:
  "vertical (opposite st) = vertical st" "horizontal (opposite st) = horizontal st"
  by (auto simp: vertical_def horizontal_def opposite_def)

text \<open>
  Claim C4.  A call \<open>f\<close> of \<open>moveup\<close>, \<open>movedown\<close>, \<open>moveleft\<close> or \<open>moveright\<close> changes the
  snake at all only if the snake is alive, \<open>_updated\<close> is set and the requested direction
  lies on the other axis than \<open>state\<close>; then \<open>state\<close> becomes the requested direction,
  \<open>movepos\<close> the matching vector, and \<open>_updated\<close> is reset, so every further request
  before the next \<open>update\<close> is without effect.  Whatever requests \<open>fs\<close> arrive in one
  pass, the direction after them is never the reverse of the direction before them.
\<close>

theorem direction_change_debounced:
  assumes "f \<in> {moveup, movedown, moveleft, moveright}"
    and "set fs \<subseteq> {moveup, movedown, moveleft, moveright}"
    and "vertical (state s) \<or> horizontal (state s)"
  shows "(f s \<noteq> s \<longrightarrow>
            alive s \<and> updated s \<and> \<not> updated (f s) \<and>
            vertical (state (f s)) \<noteq> vertical (state s) \<and>
            horizontal (state (f s)) \<noteq> horizontal (state s)) \<and>
         (moveup s \<noteq> s \<longrightarrow> \<not> vertical (state s) \<and> state (moveup s) = ''moveup'' \<and>
            movepos (moveup s) = (0, snd (movepos s) - rh (rect s))) \<and>
         (movedown s \<noteq> s \<longrightarrow> \<not> vertical (state s) \<and> state (movedown s) = ''movedown'' \<and>
            movepos (movedown s) = (0, snd (movepos s) + rh (rect s))) \<and>
         (moveleft s \<noteq> s \<longrightarrow> \<not> horizontal (state s) \<and> state (moveleft s) = ''moveleft'' \<and>
            movepos (moveleft s) = (fst (movepos s) - rw (rect s), 0)) \<and>
         (moveright s \<noteq> s \<longrightarrow> \<not> horizontal (state s) \<and> state (moveright s) = ''moveright'' \<and>
            movepos (moveright s) = (fst (movepos s) + rw (rect s), 0)) \<and>
         (f s \<noteq> s \<longrightarrow> requests fs (f s) = f s) \<and>
         state (requests fs s) \<noteq> opposite (state s)"
proof -
  have valid: "state s \<noteq> opposite (state s)"
    using assms(3) by (auto simp: vertical_def horizontal_def opposite_def)
  have exclusive: "vertical st \<Longrightarrow> \<not> horizontal st" for st
    by (auto simp: vertical_def horizontal_def)
  have one: "f s \<noteq> s \<longrightarrow>
            alive s \<and> updated s \<and> \<not> updated (f s) \<and>
            vertical (state (f s)) \<noteq> vertical (state s) \<and>
            horizontal (state (f s)) \<noteq> horizontal (state s)"
    using request_accepted[OF assms(1)] assms(3) exclusive by blast
  have up: "moveup s \<noteq> s \<longrightarrow> \<not> vertical (state s) \<and> state (moveup s) = ''moveup'' \<and>
            movepos (moveup s) = (0, snd (movepos s) - rh (rect s))"
    by (simp add: moveup_def vertical_def)
  have down: "movedown s \<noteq> s \<longrightarrow> \<not> vertical (state s) \<and> state (movedown s) = ''movedown'' \<and>
            movepos (movedown s) = (0, snd (movepos s) + rh (rect s))"
    by (simp add: movedown_def vertical_def)
  have left: "moveleft s \<noteq> s \<longrightarrow> \<not> horizontal (state s) \<and> state (moveleft s) = ''moveleft'' \<and>
            movepos (moveleft s) = (fst (movepos s) - rw (rect s), 0)"
    by (simp add: moveleft_def horizontal_def)
  have right: "moveright s \<noteq> s \<longrightarrow> \<not> horizontal (state s) \<and> state (moveright s) = ''moveright'' \<and>
            movepos (moveright s) = (fst (movepos s) + rw (rect s), 0)"
    by (simp add: moveright_def horizontal_def)
  have again: "f s \<noteq> s \<longrightarrow> requests fs (f s) = f s"
    using request_accepted[OF assms(1)] requests_rejected[OF assms(2)] by blast
  have seq: "state (requests fs s) \<noteq> opposite (state s)"
  proof -
    from requests_first[OF assms(2), of s]
    consider "requests fs s = s" | g where "g \<in> set fs" "g s \<noteq> s" "requests fs s = g s"
      by blast
    then show ?thesis
    proof cases
      case 1
      with valid show ?thesis by simp
    next
      case 2
      from 2(1) assms(2) have g: "g \<in> {moveup, movedown, moveleft, moveright}" by blast
      from request_accepted[OF g 2(2)]
      have "vertical (state (g s)) \<and> \<not> vertical (state s) \<or>
            horizontal (state (g s)) \<and> \<not> horizontal (state s)" by simp
      then have "state (g s) \<noteq> opposite (state s)"
        using opposite_axis[of "state s"] by metis
      with 2(3) show ?thesis by simp
    qed
  qed
  from one up down left right again seq show ?thesis by blast
qed

text \<open>
  In the concrete session, after the first pass the snake moves down; a right turn is
  accepted and the left turn that follows it in the same pass is not.
\<close>

theorem direction_change_debounced_witness:
  "moveright \<in> {moveup, movedown, moveleft, moveright} \<and>
   set [moveright, moveleft] \<subseteq> {moveup, movedown, moveleft, moveright} \<and>
   vertical (state pass1) \<and>
   moveright pass1 \<noteq> pass1 \<and> alive pass1 \<and> updated pass1 \<and>
   \<not> updated (moveright pass1) \<and> horizontal (state (moveright pass1)) \<and>
   requests [moveright, moveleft] (moveright pass1) = moveright pass1 \<and>
   state (requests [moveright, moveleft] pass1) \<noteq> opposite (state pass1)"
proof -
  have h1: "moveright \<in> {moveup, movedown, moveleft, moveright}" by simp
  have h2: "set [moveright, moveleft] \<subseteq> {moveup, movedown, moveleft, moveright}" by simp
  have v: "vertical (state pass1)" by (simp add: pass1_value vertical_def)
  then have h3: "vertical (state pass1) \<or> horizontal (state pass1)" by simp
  have ne: "moveright pass1 \<noteq> pass1"
  proof
    assume "moveright pass1 = pass1"
    then have "state (moveright pass1) = state pass1" by simp
    then show False by (simp add: pass1_value moveright_def)
  qed
  have nv: "\<not> vertical (state (moveright pass1))"
    by (simp add: pass1_value moveright_def vertical_def)
  from direction_change_debounced[OF h1 h2 h3] ne v nv h1 h2 show ?thesis by blast
qed

section \<open>Death of the snake\<close>

lemma Snake_update_dead: "\<not> alive s \<Longrightarrow> Snake_update gd s = s"
  by (simp add: Snake_update_def)

lemma Snake_update_rect:
  "alive s \<Longrightarrow> rect (Snake_update gd s) = move (rect s) (movepos s)"
  by (simp add: Snake_update_def Let_def)

lemma Snake_update_outside:
  "alive s \<Longrightarrow> \<not> contains gd (rect (Snake_update gd s)) \<Longrightarrow> \<not> alive (Snake_update gd s)"
  by (simp add: Snake_update_def Let_def split: if_splits)

lemma Snake_update_bodies:
  "alive s \<Longrightarrow> alive (Snake_update gd s) \<Longrightarrow>
   spritecollideany (rect (Snake_update gd s)) (body_group (new_body (Snake_update gd s))) = None"
  by (simp add: Snake_update_def Let_def split: if_splits)

lemma dead_ops:
  assumes "\<not> alive d"
    and "set ops \<subseteq> {Snake_update gd, moveup, movedown, moveleft, moveright}"
  shows "requests ops d = d"
  using assms(2)
proof (induction ops)
  case Nil
  then show ?case by (simp add: requests_def)
next
  case (Cons f ops)
  from Cons.prems have "f \<in> {Snake_update gd, moveup, movedown, moveleft, moveright}" by simp
  with assms(1) have "f d = d"
    by (auto simp: Snake_update_dead moveup_def movedown_def moveleft_def moveright_def)
  with Cons show ?case by (simp add: requests_def)
qed

text \<open>
  Claim C5.  An \<open>update\<close> of a live snake moves its rectangle by \<open>movepos\<close>.  If the new
  rectangle is not inside the display, and so in particular if it lies fully outside of
  it, the snake is dead after the \<open>update\<close>; and on a dead snake every later \<open>update\<close>
  and every direction request, in any order, changes nothing, its position included.
\<close>

theorem out_of_bounds_is_death:
  assumes "alive s"
    and "set ops \<subseteq> {Snake_update gd, moveup, movedown, moveleft, moveright}"
  shows "rect (Snake_update gd s) = move (rect s) (movepos s) \<and>
         (\<not> contains gd (rect (Snake_update gd s)) \<longrightarrow> \<not> alive (Snake_update gd s)) \<and>
         (0 < rw (rect s) \<and> 0 < rh (rect s) \<and> \<not> colliderect gd (rect (Snake_update gd s))
            \<longrightarrow> \<not> alive (Snake_update gd s)) \<and>
         (\<not> alive (Snake_update gd s) \<longrightarrow>
            requests ops (Snake_update gd s) = Snake_update gd s)"
proof -
  let ?s' = "Snake_update gd s"
  have r: "rect ?s' = move (rect s) (movepos s)"
    using assms(1) by (rule Snake_update_rect)
  have out: "\<not> contains gd (rect ?s') \<longrightarrow> \<not> alive ?s'"
    using assms(1) Snake_update_outside by blast
  have sz: "rw (rect ?s') = rw (rect s)" "rh (rect ?s') = rh (rect s)"
    using r by (simp_all add: move_def)
  have far: "0 < rw (rect s) \<and> 0 < rh (rect s) \<and> \<not> colliderect gd (rect ?s') \<longrightarrow> \<not> alive ?s'"
    using out contains_collides[of gd "rect ?s'"] sz by auto
  have stay: "\<not> alive ?s' \<longrightarrow> requests ops ?s' = ?s'"
    using dead_ops[OF _ assms(2)] by blast
  from r out far stay show ?thesis by blast
qed

text \<open>
  In the concrete session the snake is in the top row after the third pass and moves up:
  the next \<open>update\<close> takes it out of the display, and it stays where it died.
\<close>

theorem out_of_bounds_is_death_witness:
  "alive pass3 \<and>
   set [Snake_update screen, moveleft, Snake_update screen]
     \<subseteq> {Snake_update screen, moveup, movedown, moveleft, moveright} \<and>
   rect (Snake_update screen pass3) = Rect 345 (- 49) 49 49 \<and>
   \<not> colliderect screen (rect (Snake_update screen pass3)) \<and>
   \<not> alive (Snake_update screen pass3) \<and>
   rect (requests [Snake_update screen, moveleft, Snake_update screen] (Snake_update screen pass3))
     = Rect 345 (- 49) 49 49"
proof -
  have h1: "alive pass3" by (simp add: pass3_value)
  have h2: "set [Snake_update screen, moveleft, Snake_update screen]
     \<subseteq> {Snake_update screen, moveup, movedown, moveleft, moveright}" by simp
  have r: "rect (Snake_update screen pass3) = Rect 345 (- 49) 49 49"
    by (simp add: pass3_up_value)
  have sz: "0 < rw (rect pass3) \<and> 0 < rh (rect pass3)" by (simp add: pass3_value)
  have nc: "\<not> colliderect screen (rect (Snake_update screen pass3))"
    by (simp add: r colliderect_def)
  from out_of_bounds_is_death[OF h1 h2] sz nc
  have dead: "\<not> alive (Snake_update screen pass3)"
    and stay: "\<not> alive (Snake_update screen pass3) \<longrightarrow>
       requests [Snake_update screen, moveleft, Snake_update screen] (Snake_update screen pass3)
         = Snake_update screen pass3"
    by blast+
  from h1 h2 r nc dead stay show ?thesis by simp
qed

text \<open>
  Claim C6.  Every body \<open>b\<close> of the body group is compared with the head in the \<open>update\<close>
  of a live snake: if the head's new rectangle collides with the rectangle of \<open>b\<close>, and
  so in particular if the two are at the same position, the snake is dead after the
  \<open>update\<close>.
\<close>

theorem self_collision_is_death:
  assumes "alive s"
    and "b \<in> set (body_group (new_body (Snake_update gd s)))"
  shows "(colliderect (rect (Snake_update gd s)) (body_rect b) \<longrightarrow> \<not> alive (Snake_update gd s)) \<and>
         (rx (body_rect b) = rx (rect (Snake_update gd s)) \<and>
          ry (body_rect b) = ry (rect (Snake_update gd s)) \<and>
          0 < rw (body_rect b) \<and> 0 < rh (body_rect b) \<and>
          0 < rw (rect (Snake_update gd s)) \<and> 0 < rh (rect (Snake_update gd s))
            \<longrightarrow> \<not> alive (Snake_update gd s))"
proof -
  let ?s' = "Snake_update gd s"
  have hit: "colliderect (rect ?s') (body_rect b) \<longrightarrow> \<not> alive ?s'"
  proof (intro impI notI)
    assume c: "colliderect (rect ?s') (body_rect b)" and "alive ?s'"
    with assms(1) have "spritecollideany (rect ?s') (body_group (new_body ?s')) = None"
      by (simp add: Snake_update_bodies)
    with assms(2) c show False by (simp add: spritecollideany_None)
  qed
  then show ?thesis using same_place_collides[of "rect ?s'" "body_rect b"] by auto
qed

text \<open>
  In the concrete session a left turn in the top row brings the head back to where the
  snake started, and there the first body, in the body group from the start, still is.
\<close>

theorem self_collision_is_death_witness:
  "alive (moveleft pass3) \<and>
   Body (Rect 296 0 49 49) (Rect 296 0 49 49) True None
     \<in> set (body_group (new_body (Snake_update screen (moveleft pass3)))) \<and>
   rect (Snake_update screen (moveleft pass3)) = Rect 296 0 49 49 \<and>
   \<not> alive (Snake_update screen (moveleft pass3))"
proof -
  let ?b = "Body (Rect 296 0 49 49) (Rect 296 0 49 49) True None"
  have h1: "alive (moveleft pass3)" by (simp add: pass3_value moveleft_def)
  have h2: "?b \<in> set (body_group (new_body (Snake_update screen (moveleft pass3))))"
    by (simp add: pass3_left_value body_group_single)
  have r: "rect (Snake_update screen (moveleft pass3)) = Rect 296 0 49 49"
    by (simp add: pass3_left_value)
  from self_collision_is_death[OF h1 h2] r
  have "\<not> alive (Snake_update screen (moveleft pass3))" by simp
  with h1 h2 r show ?thesis by simp
qed

section \<open>The score\<close>

lemma str_values: "str 50 = ''50''" "str 0 = ''0''"
  by (simp_all add: str_def digit_char_def)

lemma ScoreText_init_value:
  "ScoreText_init font8 screen =
     \<lparr>score = 0, old_score = 0, score_text = ''Score: 0'', textpos = Rect 0 624 64 16,
      display_updates = 1\<rparr>"
  by (simp add: ScoreText_init_def str_values font8_def get_rect_bottomleft_def)


text \<open>
  Claim C8.  \<open>ScoreText.update\<close> adds \<open>added\<close> to \<open>score\<close>.  It refreshes the display,
  once, exactly when the new total differs from \<open>old_score\<close>, the total it rendered
  last; then the text is rendered from the new total and \<open>old_score\<close> follows.  When
  the new total equals \<open>old_score\<close> the rendered text, its rectangle and \<open>old_score\<close>
  stay as they are.
\<close>

theorem score_update_refreshes_on_change:
  "score (ScoreText_update font_size area added st) = score st + added \<and>
   (display_updates (ScoreText_update font_size area added st) = display_updates st + 1)
     = (score st + added \<noteq> old_score st) \<and>
   (display_updates (ScoreText_update font_size area added st) = display_updates st)
     = (score st + added = old_score st) \<and>
   (score st + added \<noteq> old_score st \<longrightarrow>
      score_text (ScoreText_update font_size area added st) = ''Score: '' @ str (score st + added) \<and>
      textpos (ScoreText_update font_size area added st)
        = get_rect_bottomleft (font_size (''Score: '' @ str (score st + added))) area \<and>
      old_score (ScoreText_update font_size area added st) = score st + added) \<and>
   (score st + added = old_score st \<longrightarrow>
      score_text (ScoreText_update font_size area added st) = score_text st \<and>
      textpos (ScoreText_update font_size area added st) = textpos st \<and>
      old_score (ScoreText_update font_size area added st) = old_score st)"
  by (simp add: ScoreText_update_def update_text_def Let_def)

text \<open>Adding 50 to a new score text refreshes the display, adding 0 does not.\<close>

theorem score_update_refreshes_on_change_witness:
  "score (ScoreText_update font8 screen 50 (ScoreText_init font8 screen)) = 50 \<and>
   display_updates (ScoreText_update font8 screen 50 (ScoreText_init font8 screen)) = 2 \<and>
   score_text (ScoreText_update font8 screen 50 (ScoreText_init font8 screen)) = ''Score: 50'' \<and>
   display_updates (ScoreText_update font8 screen 0 (ScoreText_init font8 screen)) = 1 \<and>
   score_text (ScoreText_update font8 screen 0 (ScoreText_init font8 screen)) = ''Score: 0'' \<and>
   textpos (ScoreText_update font8 screen 0 (ScoreText_init font8 screen)) = Rect 0 624 64 16"
  using score_update_refreshes_on_change[of font8 screen 50 "ScoreText_init font8 screen"]
    score_update_refreshes_on_change[of font8 screen 0 "ScoreText_init font8 screen"]
  by (simp add: ScoreText_init_value str_values)

section \<open>The apple\<close>


lemma grow_body_rect: "rect (grow_body sn) = rect sn"
  by (simp add: grow_body_def Let_def)

lemma spawn_grow_body: "spawn (grow_body sn) bodies draws a = spawn sn bodies draws a"
  by (induction draws arbitrary: a) (simp_all add: grow_body_rect Let_def)

lemma MainGame_apple_value:
  "MainGame_apple screen (320, 73) =
     \<lparr>apple_rect = Rect 295 48 50 50, pos = (320, 73), old_rect = Tuple00, spawn_timer = 5,
      apple_alive = True, apple_area = screen\<rparr>"
  by (simp add: MainGame_apple_def)









text \<open>
  Claim C1.  \<open>_spawn\<close> rejects a draw only when the new rectangle collides with the head
  \<^emph>\<open>and\<close> with a body of the group \<^emph>\<open>and\<close> equals \<open>_old_rect\<close>; its docstring
  promises to avoid each of the three.  With the head at \<open>(345, 49)\<close> and the one body
  at \<open>(296, 0)\<close>, it accepts a draw that puts the apple on the head, a draw that puts it
  on the body, and the draw that repeats the apple's last position.  Each draw lies within
  the bounds of \<open>random.randint\<close>.
\<close>

theorem spawn_accepts_occupied_positions:
  "in_spawn_range eaten_apple (360, 80) \<and>
   spawn pass2 (body_group (new_body pass2)) [(360, 80)] eaten_apple
     = Some (eaten_apple\<lparr>pos := (360, 80), apple_rect := Rect 335 55 50 50\<rparr>, []) \<and>
   colliderect (rect pass2) (Rect 335 55 50 50) \<and>
   in_spawn_range eaten_apple (300, 50) \<and>
   spawn pass2 (body_group (new_body pass2)) [(300, 50)] eaten_apple
     = Some (eaten_apple\<lparr>pos := (300, 50), apple_rect := Rect 275 25 50 50\<rparr>, []) \<and>
   spritecollideany (Rect 275 25 50 50) (body_group (new_body pass2)) \<noteq> None \<and>
   in_spawn_range eaten_apple (320, 73) \<and>
   spawn pass2 (body_group (new_body pass2)) [(320, 73)] eaten_apple
     = Some (eaten_apple\<lparr>pos := (320, 73), apple_rect := apple_rect eaten_apple\<rparr>, [])"
  by (simp add: eaten_apple_def MainGame_apple_value pass2_value body_group_single
      in_spawn_range_def spritecollideany_def colliderect_def rect_eq_old_def)

section \<open>Growth of the body chain\<close>

lemma chain_nonempty: "chain b \<noteq> []"
  by (cases b) simp

lemma Body_update_length:
  "length (chain b) \<le> length (chain (Body_update r c b)) \<and>
   length (chain (Body_update r c b)) \<le> length (chain b) + 1"
proof (induction b arbitrary: r c)
  case (Body r0 t a nb)
  show ?case
  proof (cases nb)
    case None
    then show ?thesis by (simp add: Body_init_def)
  next
    case (Some b')
    with Body[of b'] show ?thesis by simp
  qed
qed

lemma Body_update_append:
  "c = int (length (chain b)) - 1 \<Longrightarrow>
   map body_alive (chain (Body_update r c b)) = replicate (length (chain b)) True @ [False]"
proof (induction b arbitrary: r c)
  case (Body r0 t a nb)
  show ?case
  proof (cases nb)
    case None
    with Body.prems show ?thesis by (simp add: Body_init_def)
  next
    case (Some b')
    have pos: "0 < length (chain b')" using chain_nonempty[of b'] by simp
    from Some Body.prems have c: "c = int (length (chain b'))" by simp
    with pos have "c > 0" by simp
    moreover from c have "c - 1 = int (length (chain b')) - 1" by simp
    from Body.IH[of b', OF _ this] Some
    have "map body_alive (chain (Body_update r0 (c - 1) b'))
            = replicate (length (chain b')) True @ [False]" by simp
    ultimately show ?thesis using Some by simp
  qed
qed

lemma Body_update_zero:
  "body_new_body b \<noteq> None \<Longrightarrow>
   map body_alive (chain (Body_update r 0 b)) = True # tl (map body_alive (chain b))"
  by (cases b) auto

lemma requests_frame:
  "set fs \<subseteq> {moveup, movedown, moveleft, moveright} \<Longrightarrow>
   has_tail (requests fs s) = has_tail s \<and> add_tail (requests fs s) = add_tail s \<and>
   tail_count (requests fs s) = tail_count s \<and> new_body (requests fs s) = new_body s \<and>
   alive (requests fs s) = alive s"
proof (induction fs arbitrary: s)
  case Nil
  then show ?case by (simp add: requests_def)
next
  case (Cons f fs)
  from Cons.prems have "f \<in> {moveup, movedown, moveleft, moveright}" by simp
  then have "has_tail (f s) = has_tail s \<and> add_tail (f s) = add_tail s \<and>
   tail_count (f s) = tail_count s \<and> new_body (f s) = new_body s \<and> alive (f s) = alive s"
    by (elim request_cases) (simp_all add: moveup_def movedown_def moveleft_def moveright_def)
  moreover from Cons have "has_tail (requests fs (f s)) = has_tail (f s) \<and>
   add_tail (requests fs (f s)) = add_tail (f s) \<and>
   tail_count (requests fs (f s)) = tail_count (f s) \<and>
   new_body (requests fs (f s)) = new_body (f s) \<and> alive (requests fs (f s)) = alive (f s)"
    by simp
  moreover have "requests (f # fs) s = requests fs (f s)" by (simp add: requests_def)
  ultimately show ?case by simp
qed

lemma Snake_update_frame:
  assumes "alive s"
  shows "has_tail (Snake_update gd s) = has_tail s"
    and "add_tail (Snake_update gd s) = add_tail s"
    and "tail_count (Snake_update gd s) = (if has_tail s then 0 else tail_count s)"
    and "new_body (Snake_update gd s) =
          (if has_tail s
           then Body_update (rect s) (if tail_count s > 0 then add_tail s else tail_count s) (new_body s)
           else new_body s)"
  using assms by (simp_all add: Snake_update_def Let_def)

lemma chain_inv_init: "chain_inv 0 (MainGame_snake area)"
  by (simp add: chain_inv_def MainGame_snake_def Snake_init_def Body_init_def Let_def)

lemma flags_length: "length (chain b) = length (map body_alive (chain b))"
  by simp

lemma single_flag_no_tail:
  assumes "map body_alive (chain b) = [x]"
  shows "length (chain b) = 1"
  using assms flags_length[of b] by simp

lemma long_chain_has_tail:
  assumes "length (chain b) > 1"
  shows "body_new_body b \<noteq> None"
  using assms by (cases b) (auto split: option.splits)

lemma chain_inv_length:
  assumes "chain_inv n s"
  shows "length (chain (new_body s)) = Suc n"
proof -
  have "map body_alive (chain (new_body s)) = (if n = 0 then [True] else replicate n True @ [False])"
    using assms by (simp add: chain_inv_def)
  from arg_cong[OF this, of length] show ?thesis by simp
qed

lemma grow_body_counts:
  assumes "chain_inv n s"
  shows "has_tail (grow_body s) \<and> add_tail (grow_body s) = int n \<and>
         tail_count (grow_body s) = int n \<and> new_body (grow_body s) = new_body s \<and>
         alive (grow_body s) = alive s"
  using assms by (auto simp: chain_inv_def grow_body_def Let_def split: if_splits)

lemma chain_inv_eat:
  assumes ag: "alive g" and hg: "has_tail g" and cnt: "add_tail g = int n" "tail_count g = int n"
    and len: "length (chain (new_body g)) = Suc n"
  shows "chain_inv (Suc n) (Snake_update gd g)"
proof -
  from cnt have c: "(if tail_count g > 0 then add_tail g else tail_count g) = int n" by simp
  have nb: "new_body (Snake_update gd g) = Body_update (rect g) (int n) (new_body g)"
    using Snake_update_frame(4)[OF ag, of gd] hg c by simp
  have "int n = int (length (chain (new_body g))) - 1" using len by simp
  from Body_update_append[OF this, of "rect g"] len
  have fl: "map body_alive (chain (Body_update (rect g) (int n) (new_body g)))
              = replicate (Suc n) True @ [False]" by simp
  show ?thesis
    using Snake_update_frame(1-3)[OF ag, of gd] hg cnt nb fl
    by (simp add: chain_inv_def)
qed

lemma chain_inv_idle:
  assumes inv: "chain_inv n s" and al: "alive s"
  shows "chain_inv n (Snake_update gd s)"
proof (cases "n = 0")
  case True
  with inv have "\<not> has_tail s" by (simp add: chain_inv_def)
  with Snake_update_frame[OF al, of gd] inv True show ?thesis
    by (simp add: chain_inv_def)
next
  case False
  with inv have h: "has_tail s" and tc: "tail_count s = 0" and at: "add_tail s = int n - 1"
    and fl: "map body_alive (chain (new_body s)) = replicate n True @ [False]"
    by (simp_all add: chain_inv_def)
  from chain_inv_length[OF inv] False have "length (chain (new_body s)) > 1" by simp
  then have t: "body_new_body (new_body s) \<noteq> None" by (rule long_chain_has_tail)
  have nb: "new_body (Snake_update gd s) = Body_update (rect s) 0 (new_body s)"
    using Snake_update_frame(4)[OF al, of gd] h tc by simp
  from False obtain m where m: "n = Suc m" by (cases n) auto
  have "map body_alive (chain (Body_update (rect s) 0 (new_body s)))
          = True # tl (replicate n True @ [False])"
    using Body_update_zero[OF t, of "rect s"] fl by simp
  also have "\<dots> = replicate n True @ [False]" using m by simp
  finally show ?thesis
    using Snake_update_frame(1-3)[OF al, of gd] h at False nb
    by (simp add: chain_inv_def)
qed

lemma chain_inv_requests:
  assumes "set fs \<subseteq> {moveup, movedown, moveleft, moveright}"
  shows "chain_inv n (requests fs s) = chain_inv n s"
  using requests_frame[OF assms, of s] by (simp add: chain_inv_def)

lemma chain_inv_tick:
  assumes inv: "chain_inv n s" and keys: "set keys \<subseteq> {moveup, movedown, moveleft, moveright}"
  shows "chain_inv (n + (if eats \<and> alive s then 1 else 0)) (game_tick gd eats keys s)"
proof (cases "alive s")
  case False
  then have "alive (requests keys s) = False" using requests_frame[OF keys, of s] by simp
  then have "game_tick gd eats keys s = requests keys s"
    using False by (simp add: game_tick_def Snake_update_def)
  with inv False show ?thesis by (simp add: chain_inv_requests[OF keys])
next
  case True
  show ?thesis
  proof (cases eats)
    case e: True
    let ?g = "grow_body s"
    let ?q = "requests keys ?g"
    from grow_body_counts[OF inv] requests_frame[OF keys, of ?g] True chain_inv_length[OF inv]
    have "alive ?q" "has_tail ?q" "add_tail ?q = int n" "tail_count ?q = int n"
      "length (chain (new_body ?q)) = Suc n" by simp_all
    then have "chain_inv (Suc n) (Snake_update gd ?q)" by (rule chain_inv_eat)
    with e True show ?thesis by (simp add: game_tick_def)
  next
    case e: False
    have "chain_inv n (requests keys s)" using inv by (simp add: chain_inv_requests[OF keys])
    moreover have "alive (requests keys s)" using True requests_frame[OF keys, of s] by simp
    ultimately have "chain_inv n (Snake_update gd (requests keys s))" by (rule chain_inv_idle)
    with e show ?thesis by (simp add: game_tick_def)
  qed
qed

lemma chain_inv_session:
  assumes "chain_inv n s"
    and "\<forall>t \<in> set ts. set (snd t) \<subseteq> {moveup, movedown, moveleft, moveright}"
  shows "chain_inv (n + eaten gd ts s) (session gd ts s)"
  using assms
proof (induction ts arbitrary: n s)
  case Nil
  then show ?case by simp
next
  case (Cons t ts)
  obtain eats keys where t: "t = (eats, keys)" by (cases t)
  with Cons.prems have keys: "set keys \<subseteq> {moveup, movedown, moveleft, moveright}" by simp
  from chain_inv_tick[OF Cons.prems(1) keys, of eats gd]
  have "chain_inv (n + (if eats \<and> alive s then 1 else 0)) (game_tick gd eats keys s)" .
  from Cons.IH[OF this] Cons.prems(2) t show ?case by (simp add: add.assoc)
qed

lemma chain_inv_group:
  assumes "chain_inv n s" and "0 < n"
  shows "map body_alive (chain (new_body s)) = replicate n True @ [False]"
    and "length (body_group (new_body s)) = n"
proof -
  show fl: "map body_alive (chain (new_body s)) = replicate n True @ [False]"
    using assms by (simp add: chain_inv_def)
  have "length (body_group (new_body s)) = length (filter (\<lambda>x. x) (map body_alive (chain (new_body s))))"
    by (simp add: body_group_def filter_map comp_def)
  also have "\<dots> = n" unfolding fl by simp
  finally show "length (body_group (new_body s)) = n" .
qed

text \<open>
  Claim C2, as the code has it by design.  \<open>Snake.__init__\<close> allocates the first \<open>Body\<close>,
  and the \<open>update\<close> that follows each eaten apple allocates the next one in advance.  So
  after any passes of the loop in which \<open>N\<close> apples were eaten the chain linked from the
  snake holds \<open>N + 1\<close> bodies: \<open>N\<close> segments and, last, the one allocated in advance.
  From the first apple on, the \<open>N\<close> segments are in the body group and the body allocated
  in advance is not.  A single \<open>Body.update\<close> appends at most one body and removes none,
  whatever \<open>count\<close> it is given.
\<close>

theorem body_chain_growth:
  assumes "\<forall>t \<in> set ts. set (snd t) \<subseteq> {moveup, movedown, moveleft, moveright}"
  shows "length (chain (new_body (session gd ts (MainGame_snake area))))
           = eaten gd ts (MainGame_snake area) + 1 \<and>
         length (butlast (chain (new_body (session gd ts (MainGame_snake area)))))
           = eaten gd ts (MainGame_snake area) \<and>
         (0 < eaten gd ts (MainGame_snake area) \<longrightarrow>
            map body_alive (chain (new_body (session gd ts (MainGame_snake area))))
              = replicate (eaten gd ts (MainGame_snake area)) True @ [False] \<and>
            length (body_group (new_body (session gd ts (MainGame_snake area))))
              = eaten gd ts (MainGame_snake area)) \<and>
         length (chain b) \<le> length (chain (Body_update r c b)) \<and>
         length (chain (Body_update r c b)) \<le> length (chain b) + 1"
proof -
  from chain_inv_session[OF chain_inv_init assms, of gd area]
  have inv: "chain_inv (eaten gd ts (MainGame_snake area)) (session gd ts (MainGame_snake area))"
    by simp
  from chain_inv_length[OF inv] chain_inv_group[OF inv] Body_update_length[of b r c]
  show ?thesis by simp
qed

text \<open>Two passes of the concrete session, an apple eaten in the second.\<close>

theorem body_chain_growth_witness:
  "eaten screen [(False, []), (True, [moveright])] (MainGame_snake screen) = 1 \<and>
   length (chain (new_body (session screen [(False, []), (True, [moveright])] (MainGame_snake screen))))
     = 2 \<and>
   map body_alive
     (chain (new_body (session screen [(False, []), (True, [moveright])] (MainGame_snake screen))))
     = [True, False] \<and>
   length (body_group (new_body (session screen [(False, []), (True, [moveright])] (MainGame_snake screen))))
     = 1"
proof -
  have h: "\<forall>t \<in> set [(False, []), (True, [moveright])].
             set (snd t) \<subseteq> {moveup, movedown, moveleft, moveright}" by simp
  have "alive pass1" by (simp add: pass1_value)
  then have e: "eaten screen [(False, []), (True, [moveright])] (MainGame_snake screen) = 1"
    by (simp add: pass1_def[symmetric])
  from body_chain_growth[OF h, of screen screen] e show ?thesis by simp
qed

text \<open>
  Claim C2, as it is stated, fails on the chain that the snake holds: with nothing eaten
  the chain holds one body, and after the first apple it holds two.
\<close>

theorem body_chain_not_N_segments:
  "length (chain (new_body (session screen [] (MainGame_snake screen))))
     \<noteq> eaten screen [] (MainGame_snake screen) \<and>
   length (chain (new_body (session screen [(False, []), (True, [moveright])] (MainGame_snake screen))))
     \<noteq> eaten screen [(False, []), (True, [moveright])] (MainGame_snake screen)"
proof -
  have "length (chain (new_body (session screen [] (MainGame_snake screen)))) = 1"
    by (simp add: MainGame_snake_def Snake_init_def Body_init_def Let_def)
  moreover have "eaten screen [] (MainGame_snake screen) = 0" by simp
  moreover have h: "\<forall>t \<in> set [(False, []), (True, [moveright])].
             set (snd t) \<subseteq> {moveup, movedown, moveleft, moveright}" by simp
  from chain_inv_session[OF chain_inv_init h, of screen screen]
  have "length (chain (new_body (session screen [(False, []), (True, [moveright])] (MainGame_snake screen))))
     = Suc (eaten screen [(False, []), (True, [moveright])] (MainGame_snake screen))"
    using chain_inv_length by simp
  ultimately show ?thesis by simp
qed

section \<open>The two files\<close>

lemma json_update_last_session:
  "snd (json_update fs r) ''last_session_info.json'' = Some (dumps (dict_obj r) 3)"
  by (simp add: json_update_def Let_def split: option.splits sum.splits)





lemma dict_set_at:
  assumes "distinct (map fst kvs)" "i < length kvs" "fst (kvs ! i) = k"
  shows "dict_set kvs k v = kvs[i := (k, v)]"
  using assms
proof (induction kvs arbitrary: i)
  case Nil
  then show ?case by simp
next
  case (Cons p kvs)
  obtain k' v' where p: "p = (k', v')" by (cases p)
  show ?case
  proof (cases i)
    case 0
    with Cons.prems p show ?thesis by simp
  next
    case (Suc j)
    with Cons.prems p have j: "j < length kvs" "fst (kvs ! j) = k" by simp_all
    then have "k \<in> fst ` set kvs" by (metis nth_mem image_eqI)
    with Cons.prems(1) p have "k' \<noteq> k" by auto
    moreover from Cons.IH[OF _ j] Cons.prems(1) have "dict_set kvs k v = kvs[j := (k, v)]" by simp
    ultimately show ?thesis using p Suc by simp
  qed
qed

lemma map_of_at:
  assumes "distinct (map fst kvs)" "i < length kvs"
  shows "map_of kvs (fst (kvs ! i)) = Some (snd (kvs ! i))"
  using assms by (metis map_of_is_SomeI nth_mem prod.collapse)

lemma scan_places_suffix:
  assumes "distinct (map fst board)"
    and "board = pre @ suf"
    and "\<forall>p \<in> set suf. entry_score (snd p) \<noteq> None"
  shows "scan_places r (map fst suf) board =
           Inr (case first_exceeded (Score r) suf of
                  None \<Rightarrow> None
                | Some i \<Rightarrow> Some (board[length pre + i :=
                    (fst (board ! (length pre + i)), overwritten r (snd (board ! (length pre + i))))]))"
  using assms(2,3)
proof (induction suf arbitrary: pre)
  case Nil
  then show ?case by simp
next
  case (Cons p suf)
  obtain k e where p: "p = (k, e)" by (cases p)
  from Cons.prems(1) p have at: "board ! length pre = (k, e)" by simp
  from Cons.prems(1) have len: "length pre < length board" by simp
  from map_of_at[OF assms(1) len] at have look: "map_of board k = Some e" by simp
  from Cons.prems(2) p obtain n where sc: "entry_score e = Some n" by auto
  then obtain items where e: "e = JObj items" and it: "map_of items ''Score'' = Some (JInt n)"
    by (auto simp: entry_score_def split: json.splits option.splits)
  show ?case
  proof (cases "Score r > n")
    case True
    have "dict_set board k (overwritten r e) = board[length pre := (k, overwritten r e)]"
      using dict_set_at[OF assms(1) len] at by simp
    with True show ?thesis using p look e it sc at by (simp add: overwritten_def)
  next
    case False
    from Cons.prems(1) have split: "board = (pre @ [p]) @ suf" by simp
    from Cons.prems(2) have wf: "\<forall>p \<in> set suf. entry_score (snd p) \<noteq> None" by simp
    from Cons.IH[OF split wf] False show ?thesis
      using p look e it sc by (simp split: option.splits)
  qed
qed

lemma first_exceeded_None:
  assumes "\<forall>p \<in> set board. entry_score (snd p) \<noteq> None"
  shows "first_exceeded s board = None \<longleftrightarrow> (\<forall>p \<in> set board. s \<le> the (entry_score (snd p)))"
  using assms by (induction board) (auto split: option.splits if_splits)

lemma first_exceeded_Some:
  assumes "\<forall>p \<in> set board. entry_score (snd p) \<noteq> None"
    and "i < length board" and "s > the (entry_score (snd (board ! i)))"
    and "\<forall>j<i. s \<le> the (entry_score (snd (board ! j)))"
  shows "first_exceeded s board = Some i"
  using assms
proof (induction board arbitrary: i)
  case Nil
  then show ?case by simp
next
  case (Cons p board)
  obtain k e where p: "p = (k, e)" by (cases p)
  from Cons.prems(1) p obtain n where n: "entry_score e = Some n" by auto
  show ?case
  proof (cases i)
    case 0
    with Cons.prems(3) p n show ?thesis by simp
  next
    case (Suc i')
    from Cons.prems(4) Suc have "s \<le> the (entry_score (snd ((p # board) ! 0)))" by blast
    with p n have le: "\<not> s > n" by simp
    have "first_exceeded s board = Some i'"
    proof (rule Cons.IH)
      show "\<forall>p \<in> set board. entry_score (snd p) \<noteq> None" using Cons.prems(1) by simp
      show "i' < length board" using Cons.prems(2) Suc by simp
      show "s > the (entry_score (snd (board ! i')))" using Cons.prems(3) Suc by simp
      show "\<forall>j<i'. s \<le> the (entry_score (snd (board ! j)))"
      proof (intro allI impI)
        fix j assume "j < i'"
        then have "Suc j < i" using Suc by simp
        with Cons.prems(4) have "s \<le> the (entry_score (snd ((p # board) ! Suc j)))" by blast
        then show "s \<le> the (entry_score (snd (board ! j)))" by simp
      qed
    qed
    with p n le Suc show ?thesis by simp
  qed
qed

lemma scan_places_board:
  assumes "distinct (map fst board)" and "\<forall>p \<in> set board. entry_score (snd p) \<noteq> None"
  shows "scan_places r (map fst board) board =
           Inr (case first_exceeded (Score r) board of
                  None \<Rightarrow> None
                | Some i \<Rightarrow> Some (board[i := (fst (board ! i), overwritten r (snd (board ! i)))]))"
  using scan_places_suffix[OF assms(1), of "[]" board r] assms(2) by (simp split: option.splits)

lemma map_of_dict_set: "map_of (dict_set kvs k v) = (map_of kvs)(k \<mapsto> v)"
  by (induction kvs) (auto simp: fun_eq_iff)

lemma overwritten_items:
  assumes "entry_score e \<noteq> None"
  shows "\<exists>items items'. e = JObj items \<and> overwritten r e = JObj items' \<and>
           map_of items' = (map_of items)(''Date'' \<mapsto> JStr (Date r),
             ''Time Played (in seconds)'' \<mapsto> JInt (Time_Played r), ''Score'' \<mapsto> JInt (Score r))"
proof -
  from assms obtain items where e: "e = JObj items"
    by (auto simp: entry_score_def split: json.splits)
  then show ?thesis by (simp add: overwritten_def map_of_dict_set)
qed

text \<open>
  Claim C3.  Let \<open>leaderboard.json\<close> hold a table whose keys are distinct and whose
  entries all have an integer score.  If the score of the record exceeds no entry's score,
  the call returns without writing the leaderboard file: only the last-session file
  differs.  If \<open>i\<close> is the first entry, from the top, whose score the record's score
  exceeds strictly, the file is written with the table in which entry \<open>i\<close>, under its
  old key, has the record's date, time played and score (its other items, if any, as
  before) and every other entry is as it was.
\<close>

theorem leaderboard_first_exceeded_entry:
  assumes "fs ''leaderboard.json'' = Some txt"
    and "loads txt = Some (JObj board)"
    and "distinct (map fst board)"
    and "\<forall>p \<in> set board. entry_score (snd p) \<noteq> None"
  shows "((\<forall>p \<in> set board. Score r \<le> the (entry_score (snd p))) \<longrightarrow>
            json_update fs r = (Inr (), fs(''last_session_info.json'' \<mapsto> dumps (dict_obj r) 3)) \<and>
            snd (json_update fs r) ''leaderboard.json'' = Some txt) \<and>
         (\<forall>i. i < length board \<and> Score r > the (entry_score (snd (board ! i))) \<and>
               (\<forall>j<i. Score r \<le> the (entry_score (snd (board ! j)))) \<longrightarrow>
            fst (json_update fs r) = Inr () \<and>
            snd (json_update fs r) ''leaderboard.json''
              = Some (dumps (JObj (board[i := (fst (board ! i), overwritten r (snd (board ! i)))])) 10) \<and>
            (\<forall>j<length board. j \<noteq> i \<longrightarrow>
               board[i := (fst (board ! i), overwritten r (snd (board ! i)))] ! j = board ! j) \<and>
            (\<exists>items items'. snd (board ! i) = JObj items \<and>
               overwritten r (snd (board ! i)) = JObj items' \<and>
               map_of items' = (map_of items)(''Date'' \<mapsto> JStr (Date r),
                 ''Time Played (in seconds)'' \<mapsto> JInt (Time_Played r),
                 ''Score'' \<mapsto> JInt (Score r))))"
proof -
  have lb: "(fs(''last_session_info.json'' \<mapsto> dumps (dict_obj r) 3)) ''leaderboard.json'' = Some txt"
    using assms(1) by simp
  have none: "(\<forall>p \<in> set board. Score r \<le> the (entry_score (snd p))) \<longrightarrow>
            json_update fs r = (Inr (), fs(''last_session_info.json'' \<mapsto> dumps (dict_obj r) 3)) \<and>
            snd (json_update fs r) ''leaderboard.json'' = Some txt"
  proof
    assume "\<forall>p \<in> set board. Score r \<le> the (entry_score (snd p))"
    then have "first_exceeded (Score r) board = None"
      using first_exceeded_None[OF assms(4)] by simp
    then have "update_board r (JObj board) = Inr None"
      by (simp add: update_board_def scan_places_board[OF assms(3,4)])
    then have "json_update fs r = (Inr (), fs(''last_session_info.json'' \<mapsto> dumps (dict_obj r) 3))"
      using lb assms(2) by (simp add: json_update_def Let_def)
    then show "json_update fs r = (Inr (), fs(''last_session_info.json'' \<mapsto> dumps (dict_obj r) 3)) \<and>
            snd (json_update fs r) ''leaderboard.json'' = Some txt"
      using assms(1) by simp
  qed
  have some: "fst (json_update fs r) = Inr () \<and>
            snd (json_update fs r) ''leaderboard.json''
              = Some (dumps (JObj (board[i := (fst (board ! i), overwritten r (snd (board ! i)))])) 10) \<and>
            (\<forall>j<length board. j \<noteq> i \<longrightarrow>
               board[i := (fst (board ! i), overwritten r (snd (board ! i)))] ! j = board ! j) \<and>
            (\<exists>items items'. snd (board ! i) = JObj items \<and>
               overwritten r (snd (board ! i)) = JObj items' \<and>
               map_of items' = (map_of items)(''Date'' \<mapsto> JStr (Date r),
                 ''Time Played (in seconds)'' \<mapsto> JInt (Time_Played r),
                 ''Score'' \<mapsto> JInt (Score r)))"
    if i: "i < length board" "Score r > the (entry_score (snd (board ! i)))"
       "\<forall>j<i. Score r \<le> the (entry_score (snd (board ! j)))" for i
  proof -
    let ?b = "board[i := (fst (board ! i), overwritten r (snd (board ! i)))]"
    have "first_exceeded (Score r) board = Some i"
      using first_exceeded_Some[OF assms(4) i] .
    then have "update_board r (JObj board) = Inr (Some (JObj ?b))"
      by (simp add: update_board_def scan_places_board[OF assms(3,4)])
    then have ju: "json_update fs r =
        (Inr (), fs(''last_session_info.json'' \<mapsto> dumps (dict_obj r) 3,
                    ''leaderboard.json'' \<mapsto> dumps (JObj ?b) 10))"
      using lb assms(2) by (simp add: json_update_def Let_def)
    have wf: "entry_score (snd (board ! i)) \<noteq> None" using assms(4) i(1) by simp
    from ju overwritten_items[OF wf, of r] show ?thesis by simp
  qed
  from none some show ?thesis by blast
qed

lemma leaderboard0_loads: "loads (dumps (JObj leaderboard0) 0) = Some (JObj leaderboard0)"
  by code_simp

lemma leaderboard0_distinct: "distinct (map fst leaderboard0)"
  by code_simp

lemma leaderboard0_scores:
  "map (\<lambda>p. entry_score (snd p)) leaderboard0 =
     [Some 100, Some 90, Some 80, Some 70, Some 60, Some 50, Some 40, Some 30, Some 20, Some 10]"
  by code_simp

lemma leaderboard0_wf: "\<forall>p \<in> set leaderboard0. entry_score (snd p) \<noteq> None"
proof -
  have "\<forall>x \<in> set (map (\<lambda>p. entry_score (snd p)) leaderboard0). x \<noteq> None"
    unfolding leaderboard0_scores by simp
  then show ?thesis by simp
qed

lemma leaderboard0_low: "\<forall>p \<in> set leaderboard0. Score session5 \<le> the (entry_score (snd p))"
proof -
  have "\<forall>x \<in> set (map (\<lambda>p. entry_score (snd p)) leaderboard0). Score session5 \<le> the x"
    unfolding leaderboard0_scores by (simp add: session5_def)
  then show ?thesis by simp
qed

lemma leaderboard0_nth:
  assumes "j < 10"
  shows "entry_score (snd (leaderboard0 ! j))
     = [Some 100, Some 90, Some 80, Some 70, Some 60, Some 50, Some 40, Some 30, Some 20, Some 10] ! j"
proof -
  from assms have "j < length leaderboard0" by (simp add: leaderboard0_def)
  then have "map (\<lambda>p. entry_score (snd p)) leaderboard0 ! j = entry_score (snd (leaderboard0 ! j))"
    by (rule nth_map)
  then show ?thesis by (simp add: leaderboard0_scores)
qed

lemma leaderboard0_seventh:
  "6 < length leaderboard0 \<and> Score session50 > the (entry_score (snd (leaderboard0 ! 6))) \<and>
   (\<forall>j<6. Score session50 \<le> the (entry_score (snd (leaderboard0 ! j))))"
proof -
  have a: "6 < length leaderboard0" by (simp add: leaderboard0_def)
  have b: "Score session50 > the (entry_score (snd (leaderboard0 ! 6)))"
    by (simp add: leaderboard0_nth session50_def)
  have c: "Score session50 \<le> the (entry_score (snd (leaderboard0 ! j)))" if "j < 6" for j
  proof -
    from that have "j = 0 \<or> j = 1 \<or> j = 2 \<or> j = 3 \<or> j = 4 \<or> j = 5" by arith
    then show ?thesis by (auto simp: leaderboard0_nth session50_def)
  qed
  from a b c show ?thesis by blast
qed

text \<open>
  The leaderboard of ten entries with the scores 100 down to 10: a record with score 5
  leaves it alone, a record with score 50 goes to the seventh place, whose score is 40.
\<close>

theorem leaderboard_first_exceeded_entry_witness:
  "files0 ''leaderboard.json'' = Some (dumps (JObj leaderboard0) 0) \<and>
   loads (dumps (JObj leaderboard0) 0) = Some (JObj leaderboard0) \<and>
   distinct (map fst leaderboard0) \<and> length leaderboard0 = 10 \<and>
   json_update files0 session5
     = (Inr (), files0(''last_session_info.json'' \<mapsto> dumps (dict_obj session5) 3)) \<and>
   snd (json_update files0 session5) ''leaderboard.json'' = Some (dumps (JObj leaderboard0) 0) \<and>
   fst (json_update files0 session50) = Inr () \<and>
   snd (json_update files0 session50) ''leaderboard.json''
     = Some (dumps (JObj (leaderboard0[6 := (''Seventh Place'', overwritten session50 (place_entry 40))])) 10)"
proof -
  have h1: "files0 ''leaderboard.json'' = Some (dumps (JObj leaderboard0) 0)"
    by (simp add: files0_def)
  have at: "leaderboard0 ! 6 = (''Seventh Place'', place_entry 40)"
    by (simp add: leaderboard0_def)
  have len: "length leaderboard0 = 10" by (simp add: leaderboard0_def)
  note t5 = leaderboard_first_exceeded_entry[where fs = files0 and board = leaderboard0
      and r = session5, OF h1 leaderboard0_loads leaderboard0_distinct leaderboard0_wf]
  note t50 = leaderboard_first_exceeded_entry[where fs = files0 and board = leaderboard0
      and r = session50, OF h1 leaderboard0_loads leaderboard0_distinct leaderboard0_wf]
  note low = t5[THEN conjunct1, THEN mp, OF leaderboard0_low]
  note high = t50[THEN conjunct2, THEN spec, THEN mp, OF leaderboard0_seventh]
  have hi2: "snd (json_update files0 session50) ''leaderboard.json''
     = Some (dumps (JObj (leaderboard0[6 := (''Seventh Place'', overwritten session50 (place_entry 40))])) 10)"
    using high[THEN conjunct2, THEN conjunct1] by (simp only: at fst_conv snd_conv)
  show ?thesis
    by (intro conjI) (rule h1 leaderboard0_loads leaderboard0_distinct len
        low[THEN conjunct1] low[THEN conjunct2] high[THEN conjunct1] hi2)+
qed

section \<open>Writing a session record and reading it back\<close>

text \<open>From here on the equation of \<open>digits\<close> is unfolded by hand.\<close>

declare digits.simps [simp del]

lemma of_char_digit_char:
  assumes "d < 10"
  shows "(of_char (digit_char d) :: nat) = 48 + d"
proof -
  from assms have "d = 0 \<or> d = 1 \<or> d = 2 \<or> d = 3 \<or> d = 4 \<or> d = 5 \<or> d = 6 \<or> d = 7 \<or> d = 8 \<or> d = 9"
    by arith
  then show ?thesis by (auto simp: digit_char_def)
qed

lemma digit_val_digit_char: "d < 10 \<Longrightarrow> digit_val (digit_char d) = Some d"
  by (simp add: digit_val_def of_char_digit_char)

lemma scan_digits_stop: "no_digit rest \<Longrightarrow> scan_digits acc rest = (acc, rest)"
  by (cases rest) (simp_all add: no_digit_def)

lemma digits_head: "\<exists>d cs. d < 10 \<and> digits n = digit_char d # cs"
proof (induction n rule: digits.induct)
  case (1 n)
  show ?case
  proof (cases "n < 10")
    case True
    then show ?thesis by (subst digits.simps) auto
  next
    case False
    with 1 obtain d cs where "d < 10" "digits (n div 10) = digit_char d # cs" by blast
    with False show ?thesis by (subst digits.simps) auto
  qed
qed

lemma scan_nat_digits:
  "0 < m \<Longrightarrow> scan_nat (digits m @ rest) = Some (scan_digits m rest)"
proof (induction m arbitrary: rest rule: digits.induct)
  case (1 m)
  show ?case
  proof (cases "m < 10")
    case True
    with 1(2) show ?thesis
      by (subst digits.simps) (simp add: scan_nat_def digit_val_digit_char)
  next
    case False
    then have pos: "0 < m div 10" by simp
    have lt: "m mod 10 < 10" by simp
    from 1(1)[OF False pos, of "digit_char (m mod 10) # rest"]
    have "scan_nat (digits (m div 10) @ digit_char (m mod 10) # rest)
            = Some (scan_digits (m div 10) (digit_char (m mod 10) # rest))" .
    also have "scan_digits (m div 10) (digit_char (m mod 10) # rest)
            = scan_digits (10 * (m div 10) + m mod 10) rest"
      by (simp add: digit_val_digit_char[OF lt])
    also have "10 * (m div 10) + m mod 10 = m" by simp
    finally show ?thesis using False by (subst digits.simps) simp
  qed
qed

lemma scan_nat_digits_all:
  assumes "no_digit rest"
  shows "scan_nat (digits n @ rest) = Some (n, rest)"
proof (cases "n = 0")
  case True
  have "digits 0 = [digit_char 0]" by (subst digits.simps) simp
  with True show ?thesis by (simp add: scan_nat_def digit_val_digit_char)
next
  case False
  with scan_nat_digits[of n rest] scan_digits_stop[OF assms] show ?thesis by simp
qed

lemma digit_char_plain:
  assumes "d < 10"
  shows "digit_char d \<noteq> CHR ''-''" "digit_char d \<noteq> CHR 0x22" "digit_char d \<noteq> CHR ''{''"
    "\<not> is_ws (digit_char d)"
proof -
  have c: "(of_char (digit_char d) :: nat) = 48 + d" using assms by (rule of_char_digit_char)
  show "digit_char d \<noteq> CHR ''-''" using c by auto
  show "digit_char d \<noteq> CHR 0x22" using c by auto
  show "digit_char d \<noteq> CHR ''{''" using c assms by auto
  show "\<not> is_ws (digit_char d)" using c by (auto simp: is_ws_def)
qed

lemma scan_int_str:
  assumes "no_digit rest" and "\<not> is_float_tail rest"
  shows "scan_int (str i @ rest) = Some (JInt i, rest)"
proof (cases "i < 0")
  case True
  then show ?thesis
    using scan_nat_digits_all[OF assms(1), of "nat (- i)"] assms(2)
    by (simp add: str_def scan_int_def)
next
  case False
  obtain d cs where d: "d < 10" "digits (nat i) = digit_char d # cs"
    using digits_head by blast
  have "scan_nat (digit_char d # cs @ rest) = Some (nat i, rest)"
    using scan_nat_digits_all[OF assms(1), of "nat i"] d(2) by simp
  with False d assms(2) digit_char_plain(1)[OF d(1)] show ?thesis
    by (simp add: str_def scan_int_def)
qed

lemma str_head:
  "\<exists>c cs. str i = c # cs \<and> c \<noteq> CHR 0x22 \<and> c \<noteq> CHR ''{'' \<and> \<not> is_ws c"
proof (cases "i < 0")
  case True
  then show ?thesis by (simp add: str_def is_ws_def)
next
  case False
  obtain d cs where d: "d < 10" "digits (nat i) = digit_char d # cs"
    using digits_head by blast
  with False digit_char_plain[OF d(1)] show ?thesis by (simp add: str_def)
qed

lemma of_char_hex_char:
  assumes "d < 16"
  shows "hex_val (hex_char d) = Some d"
proof -
  from assms have "d = 0 \<or> d = 1 \<or> d = 2 \<or> d = 3 \<or> d = 4 \<or> d = 5 \<or> d = 6 \<or> d = 7 \<or> d = 8
     \<or> d = 9 \<or> d = 10 \<or> d = 11 \<or> d = 12 \<or> d = 13 \<or> d = 14 \<or> d = 15"
    by arith
  then show ?thesis by (auto simp: hex_char_def hex_val_def)
qed

lemma of_char_less_256: "(of_char c :: nat) < 256"
proof -
  have "(of_char c :: nat) mod 256 = of_char c" by simp
  then show ?thesis by (metis mod_less_divisor zero_less_numeral)
qed

lemma char_of_hex_parts: "char_of (16 * ((of_char c :: nat) div 16) + (of_char c :: nat) mod 16) = c"
  by simp

lemma scanstring_escape: "scanstring (escape_char c @ cs) = cons_result c (scanstring cs)"
proof -
  let ?n = "of_char c :: nat"
  have d: "?n div 16 < 16" using of_char_less_256[of c] by arith
  have m: "?n mod 16 < 16" by simp
  have z: "hex_val CHR ''0'' = Some 0" by (simp add: hex_val_def)
  consider (quote) "c = CHR 0x22" | (bslash) "c = CHR 0x5C" | (nl) "c = CHR 0x0A" | (cr) "c = CHR 0x0D"
    | (tab) "c = CHR 0x09" | (bs) "c = CHR 0x08" | (ff) "c = CHR 0x0C"
    | (plain) "c \<noteq> CHR 0x22" "c \<noteq> CHR 0x5C" "c \<noteq> CHR 0x0A" "c \<noteq> CHR 0x0D" "c \<noteq> CHR 0x09"
        "c \<noteq> CHR 0x08" "c \<noteq> CHR 0x0C" "0x20 \<le> ?n \<and> ?n \<le> 0x7E"
    | (other) "c \<noteq> CHR 0x22" "c \<noteq> CHR 0x5C" "c \<noteq> CHR 0x0A" "c \<noteq> CHR 0x0D" "c \<noteq> CHR 0x09"
        "c \<noteq> CHR 0x08" "c \<noteq> CHR 0x0C" "\<not> (0x20 \<le> ?n \<and> ?n \<le> 0x7E)"
    by blast
  then show ?thesis
  proof cases
    case quote then show ?thesis by (simp add: escape_char_def unescape_def)
  next
    case bslash then show ?thesis by (simp add: escape_char_def unescape_def)
  next
    case nl then show ?thesis by (simp add: escape_char_def unescape_def)
  next
    case cr then show ?thesis by (simp add: escape_char_def unescape_def)
  next
    case tab then show ?thesis by (simp add: escape_char_def unescape_def)
  next
    case bs then show ?thesis by (simp add: escape_char_def unescape_def)
  next
    case ff then show ?thesis by (simp add: escape_char_def unescape_def)
  next
    case plain
    then show ?thesis by (simp add: escape_char_def)
  next
    case other
    then have e: "escape_char c = [CHR 0x5C, CHR ''u'', CHR ''0'', CHR ''0'',
            hex_char (?n div 16), hex_char (?n mod 16)]"
      by (simp add: escape_char_def)
    show ?thesis
      unfolding e
      by (simp add: z of_char_hex_char[OF d] of_char_hex_char[OF m] char_of_hex_parts)
  qed
qed

lemma scanstring_encoded:
  "scanstring (concat (map escape_char s) @ CHR 0x22 # rest) = Some (s, rest)"
proof (induction s)
  case Nil
  then show ?case by simp
next
  case (Cons c s)
  have "scanstring (concat (map escape_char (c # s)) @ CHR 0x22 # rest)
          = scanstring (escape_char c @ (concat (map escape_char s) @ CHR 0x22 # rest))"
    by simp
  also have "\<dots> = cons_result c (scanstring (concat (map escape_char s) @ CHR 0x22 # rest))"
    by (rule scanstring_escape)
  also have "\<dots> = Some (c # s, rest)" by (simp add: Cons.IH cons_result_def)
  finally show ?case .
qed

lemma scanstring_encode_str: "scanstring (tl (encode_str s) @ rest) = Some (s, rest)"
  using scanstring_encoded[of s rest] by (simp add: encode_str_def)

lemma encode_str_Cons: "encode_str s = CHR 0x22 # tl (encode_str s)"
  by (simp add: encode_str_def)

lemma no_digit_simps:
  "no_digit (CHR '','' # s)" "no_digit (CHR 0x0A # s)" "no_digit []"
  "\<not> is_float_tail (CHR '','' # s)" "\<not> is_float_tail (CHR 0x0A # s)" "\<not> is_float_tail []"
  by (simp_all add: no_digit_def digit_val_def is_float_tail_def)

lemma scan_value_str: "scan_value (Suc f) (encode_str s @ rest) = Some (JStr s, rest)"
proof -
  have e: "encode_str s @ rest = CHR 0x22 # tl (encode_str s) @ rest"
    by (simp add: encode_str_def)
  show ?thesis unfolding e by (simp add: scanstring_encode_str)
qed

lemma scan_value_int:
  assumes "no_digit rest" and "\<not> is_float_tail rest"
  shows "scan_value (Suc f) (str i @ rest) = Some (JInt i, rest)"
proof -
  obtain c cs where h: "str i = c # cs" "c \<noteq> CHR 0x22" "c \<noteq> CHR ''{''"
    using str_head by blast
  then have "scan_value (Suc f) (str i @ rest) = scan_int (str i @ rest)" by simp
  with scan_int_str[OF assms] show ?thesis by simp
qed

lemma skip_ws_str: "skip_ws (str i @ rest) = str i @ rest"
proof -
  obtain c cs where "str i = c # cs" "\<not> is_ws c" using str_head by blast
  then show ?thesis by (simp add: skip_ws_def)
qed

lemma skip_ws_encode_str: "skip_ws (encode_str s @ rest) = encode_str s @ rest"
  by (simp add: skip_ws_def encode_str_def is_ws_def)

lemma skip_ws_simps:
  "skip_ws (CHR '' '' # s) = skip_ws s" "skip_ws (CHR 0x0A # s) = skip_ws s"
  "skip_ws (CHR '':'' # s) = CHR '':'' # s" "skip_ws (CHR '','' # s) = CHR '','' # s"
  "skip_ws (CHR ''}'' # s) = CHR ''}'' # s" "skip_ws [] = []"
  by (simp_all add: skip_ws_def is_ws_def)

lemma scan_members_key:
  "scan_members (Suc f) acc (encode_str k @ CHR '':'' # CHR '' '' # rest) =
     (case scan_value f (skip_ws rest) of
        None \<Rightarrow> None
      | Some (v, r3) \<Rightarrow>
          (case skip_ws r3 of
             [] \<Rightarrow> None
           | e # r4 \<Rightarrow>
               if e = CHR '','' then scan_members f (dict_set acc k v) (skip_ws r4)
               else if e = CHR ''}'' then Some (JObj (dict_set acc k v), r4)
               else None))"
proof -
  have e: "encode_str k @ CHR '':'' # CHR '' '' # rest
      = CHR 0x22 # tl (encode_str k) @ CHR '':'' # CHR '' '' # rest"
    by (simp add: encode_str_def)
  show ?thesis unfolding e by (simp add: scanstring_encode_str skip_ws_simps)
qed

lemma member_comma:
  assumes "scan_value (Suc f) (V @ CHR '','' # rest) = Some (v, CHR '','' # rest)"
    and "skip_ws (V @ CHR '','' # rest) = V @ CHR '','' # rest"
  shows "scan_members (Suc (Suc f)) acc (encode_str k @ CHR '':'' # CHR '' '' # V @ CHR '','' # rest)
           = scan_members (Suc f) (dict_set acc k v) (skip_ws rest)"
  unfolding scan_members_key assms by (simp add: skip_ws_simps del: scan_members.simps scan_value.simps)

lemma member_last:
  assumes "scan_value (Suc f) (V @ CHR 0x0A # CHR ''}'' # rest) = Some (v, CHR 0x0A # CHR ''}'' # rest)"
    and "skip_ws (V @ CHR 0x0A # CHR ''}'' # rest) = V @ CHR 0x0A # CHR ''}'' # rest"
  shows "scan_members (Suc (Suc f)) acc (encode_str k @ CHR '':'' # CHR '' '' # V @ CHR 0x0A # CHR ''}'' # rest)
           = Some (JObj (dict_set acc k v), rest)"
  unfolding scan_members_key assms by (simp add: skip_ws_simps del: scan_members.simps scan_value.simps)

lemma object_open:
  "scan_value (Suc F) (CHR ''{'' # CHR 0x0A # CHR '' '' # CHR '' '' # CHR '' '' # encode_str k @ rest)
     = scan_members F [] (encode_str k @ rest)"
proof -
  have e: "encode_str k @ rest = CHR 0x22 # tl (encode_str k) @ rest"
    by (simp add: encode_str_def)
  show ?thesis unfolding e by (simp add: skip_ws_def is_ws_def)
qed

lemma dumps_dict_obj:
  "dumps (dict_obj r) 3 =
     CHR ''{'' # CHR 0x0A # CHR '' '' # CHR '' '' # CHR '' '' #
     encode_str ''Date'' @ CHR '':'' # CHR '' '' # encode_str (Date r) @
     CHR '','' # CHR 0x0A # CHR '' '' # CHR '' '' # CHR '' '' #
     encode_str ''Time Played (in seconds)'' @ CHR '':'' # CHR '' '' # str (Time_Played r) @
     CHR '','' # CHR 0x0A # CHR '' '' # CHR '' '' # CHR '' '' #
     encode_str ''Score'' @ CHR '':'' # CHR '' '' # str (Score r) @ CHR 0x0A # CHR ''}'' # []"
  by (simp add: dumps_def dict_obj_def newline_indent_def eval_nat_numeral)

lemma loads_dumps_dict_obj: "loads (dumps (dict_obj r) 3) = Some (dict_obj r)"
proof -
  let ?t3 = "encode_str ''Score'' @ CHR '':'' # CHR '' '' # str (Score r) @ CHR 0x0A # CHR ''}'' # []"
  let ?t2 = "encode_str ''Time Played (in seconds)'' @ CHR '':'' # CHR '' '' # str (Time_Played r) @
     CHR '','' # CHR 0x0A # CHR '' '' # CHR '' '' # CHR '' '' # ?t3"
  let ?t1 = "encode_str ''Date'' @ CHR '':'' # CHR '' '' # encode_str (Date r) @
     CHR '','' # CHR 0x0A # CHR '' '' # CHR '' '' # CHR '' '' # ?t2"
  let ?doc = "CHR ''{'' # CHR 0x0A # CHR '' '' # CHR '' '' # CHR '' '' # ?t1"
  let ?a1 = "dict_set [] ''Date'' (JStr (Date r))"
  let ?a2 = "dict_set ?a1 ''Time Played (in seconds)'' (JInt (Time_Played r))"
  let ?a3 = "dict_set ?a2 ''Score'' (JInt (Score r))"
  have w2: "skip_ws (CHR 0x0A # CHR '' '' # CHR '' '' # CHR '' '' # ?t2) = ?t2"
    by (simp only: skip_ws_simps skip_ws_encode_str)
  have w3: "skip_ws (CHR 0x0A # CHR '' '' # CHR '' '' # CHR '' '' # ?t3) = ?t3"
    by (simp only: skip_ws_simps skip_ws_encode_str)
  have s0: "scan_value (Suc (Suc (Suc (Suc (Suc f))))) ?doc
              = scan_members (Suc (Suc (Suc (Suc f)))) [] ?t1" for f
    by (rule object_open)
  have s1: "scan_members (Suc (Suc (Suc (Suc f)))) [] ?t1 = scan_members (Suc (Suc (Suc f))) ?a1 ?t2" for f
    using member_comma[where f = "Suc (Suc f)" and acc = "[]" and k = "''Date''"
        and V = "encode_str (Date r)", OF scan_value_str skip_ws_encode_str]
    by (simp only: w2)
  have s2: "scan_members (Suc (Suc (Suc f))) ?a1 ?t2 = scan_members (Suc (Suc f)) ?a2 ?t3" for f
    using member_comma[where f = "Suc f" and acc = ?a1 and k = "''Time Played (in seconds)''"
        and V = "str (Time_Played r)",
        OF scan_value_int[OF no_digit_simps(1) no_digit_simps(4)] skip_ws_str]
    by (simp only: w3)
  have s3: "scan_members (Suc (Suc f)) ?a2 ?t3 = Some (JObj ?a3, [])" for f
    by (rule member_last[OF scan_value_int[OF no_digit_simps(2) no_digit_simps(5)] skip_ws_str])
  have a3: "JObj ?a3 = dict_obj r" by (simp add: dict_obj_def)
  have v: "scan_value (Suc (Suc (Suc (Suc (Suc f))))) ?doc = Some (dict_obj r, [])" for f
    by (simp only: s0 s1 s2 s3 a3)
  have len: "length ?doc = Suc (Suc (Suc (Suc (Suc (length ?t1)))))" by simp
  have ws: "skip_ws ?doc = ?doc" by (simp add: skip_ws_def is_ws_def)
  have "loads ?doc = Some (dict_obj r)"
    unfolding loads_def ws len v by (simp add: skip_ws_simps)
  then show ?thesis by (simp only: dumps_dict_obj)
qed

lemma dict_obj_inject: "(dict_obj r = dict_obj r') = (r = (r' :: session_info))"
  by (cases r, cases r') (auto simp: dict_obj_def)

text \<open>
  Claim C9.  After \<open>_json_update\<close> the file \<open>last_session_info.json\<close> holds the text
  that \<open>json.dumps\<close> makes of the record with \<open>indent=3\<close>, and \<open>json.load\<close> reads that
  text back as the very dictionary that was written, for every date string and all
  integers; dictionaries of two records are equal only if the records are.
\<close>

theorem session_record_round_trip:
  "snd (json_update fs r) ''last_session_info.json'' = Some (dumps (dict_obj r) 3) \<and>
   loads (dumps (dict_obj r) 3) = Some (dict_obj r) \<and>
   (dict_obj r = dict_obj r') = (r = (r' :: session_info))"
  using json_update_last_session[of fs r] loads_dumps_dict_obj[of r] dict_obj_inject[of r r']
  by (intro conjI)

text \<open>The record of the concrete session with score 50.\<close>

theorem session_record_round_trip_witness:
  "snd (json_update files0 session50) ''last_session_info.json''
     = Some (dumps (dict_obj session50) 3) \<and>
   loads (dumps (dict_obj session50) 3)
     = Some (JObj [(''Date'', JStr ''2026/11/04''), (''Time Played (in seconds)'', JInt 12),
                   (''Score'', JInt 50)])"
proof -
  note t = session_record_round_trip[of files0 session50 session50]
  have d: "dict_obj session50
     = JObj [(''Date'', JStr ''2026/11/04''), (''Time Played (in seconds)'', JInt 12),
             (''Score'', JInt 50)]"
    by (simp add: dict_obj_def session50_def)
  have r: "loads (dumps (dict_obj session50) 3) = Some (dict_obj session50)"
    using t by (rule conjunct2[THEN conjunct1])
  have r2: "loads (dumps (dict_obj session50) 3)
     = Some (JObj [(''Date'', JStr ''2026/11/04''), (''Time Played (in seconds)'', JInt 12),
                   (''Score'', JInt 50)])"
    using r by (simp add: d)
  show ?thesis
    by (intro conjI) (rule t[THEN conjunct1] r2)+
qed

end
